theory Spec2Isabelle
  imports Complex_Main "HOL-Library.Word" "HOL-Library.Multiset"
begin

section \<open>Bytes, buffers and errors\<close>

text \<open>
  A Node \<open>Buffer\<close> is a list of bytes. A JavaScript string is represented by the bytes
  of its UTF-8 encoding (an Isabelle \<open>char\<close> is one byte), so \<open>Buffer.from(s, 'utf-8')\<close>
  and \<open>buf.toString('utf-8')\<close> are the byte-wise conversions below. They are those of Node
  on well-formed UTF-8; where the bytes are not well-formed UTF-8, Node's \<open>toString\<close> puts
  U+FFFD in the place of the offending bytes, which \<open>utf8_string\<close> does not do.
\<close>

type_synonym byte = "8 word"
type_synonym buffer = "byte list"

datatype error =
    BadMagic              \<comment> \<open>\<open>Error('Invalid WAS file: bad magic bytes')\<close>\<close>
  | RangeError            \<comment> \<open>Node's out-of-range error of a buffer read or write\<close>
  | DuplicateError        \<comment> \<open>\<open>Error('File already uploaded (duplicate hash)')\<close>\<close>
  | AuthenticationError   \<comment> \<open>\<open>decipher.final()\<close> rejects the tag\<close>
  | TransportError        \<comment> \<open>a Bot API call rejects\<close>
  | NoChunkMetadata       \<comment> \<open>\<open>Error('No chunk metadata found for this file')\<close>\<close>
  | FileNotFound          \<comment> \<open>\<open>Error('File not found')\<close>\<close>
  | NoChunksFound         \<comment> \<open>\<open>Error('No chunks found')\<close>\<close>
  | DecompressError       \<comment> \<open>\<open>gunzip\<close> rejects its input\<close>
  | ConstraintError       \<comment> \<open>SQLite UNIQUE constraint failed\<close>
  | ReadError             \<comment> \<open>\<open>fs.readFileSync\<close> / \<open>createReadStream\<close> fails\<close>
  | FolderNotRegistered   \<comment> \<open>\<open>Error('Folder not registered: ...')\<close>\<close>
  | TypeError             \<comment> \<open>a property of \<open>undefined\<close> is read\<close>

text \<open>
  A statement that throws ends the function with that error: \<open>andThen r f\<close> continues with
  \<open>f\<close> on the value of \<open>r\<close>, or stops at the error of \<open>r\<close>.
\<close>

definition andThen :: "error + 'a \<Rightarrow> ('a \<Rightarrow> error + 'b) \<Rightarrow> error + 'b" where
  "andThen r f = (case r of Inl e \<Rightarrow> Inl e | Inr v \<Rightarrow> f v)"

text \<open>
  The same for a function that also changes a state, which is kept as it is when the
  function throws: the state comes first, the error or the value second.
\<close>

definition thenS :: "'s \<times> (error + 'a) \<Rightarrow> ('s \<Rightarrow> 'a \<Rightarrow> 's \<times> (error + 'b)) \<Rightarrow> 's \<times> (error + 'b)" where
  "thenS r f = (case r of (s, Inl e) \<Rightarrow> (s, Inl e) | (s, Inr v) \<Rightarrow> f s v)"

definition utf8_bytes :: "string \<Rightarrow> buffer" where
  "utf8_bytes s = map (\<lambda>c. of_nat (of_char c)) s"

definition utf8_string :: "buffer \<Rightarrow> string" where
  "utf8_string b = map (\<lambda>w. char_of (unat w)) b"

text \<open>\<open>buf.subarray(start, end)\<close> for non-negative bounds: clamped to the buffer.\<close>

definition subarray :: "buffer \<Rightarrow> nat \<Rightarrow> nat \<Rightarrow> buffer" where
  "subarray buf start stop = take (stop - start) (drop start buf)"

text \<open>
  \<open>src.copy(target, targetStart)\<close> and \<open>target.write(string, offset)\<close>: the bytes that
  fit are written over the target, whose length never changes.
\<close>

definition copy_into :: "buffer \<Rightarrow> nat \<Rightarrow> buffer \<Rightarrow> buffer" where
  "copy_into src off target =
     take (length target) (take off target @ src @ drop (off + length src) target)"

section \<open>Frame codec (utils/chunker.js)\<close>

definition HEADER_SIZE :: nat where
  "HEADER_SIZE = 64"

definition MAGIC :: string where
  "MAGIC = ''WAS1''"

text \<open>Little-endian encoding of a number on \<open>n\<close> bytes, and its value.\<close>

fun le_bytes :: "nat \<Rightarrow> nat \<Rightarrow> buffer" where
  "le_bytes 0 v = []"
| "le_bytes (Suc n) v = of_nat (v mod 256) # le_bytes n (v div 256)"

fun le_value :: "buffer \<Rightarrow> nat" where
  "le_value [] = 0"
| "le_value (b # bs) = unat b + 256 * le_value bs"

text \<open>
  \<open>buf.writeUInt16LE(value, offset)\<close> and \<open>buf.writeBigUInt64LE(value, offset)\<close>: a value
  outside the type's range, or a write past the end of the buffer, throws a RangeError.
\<close>

definition writeUInt16LE :: "nat \<Rightarrow> nat \<Rightarrow> buffer \<Rightarrow> error + buffer" where
  "writeUInt16LE v off buf =
     (if v > 65535 \<or> off + 2 > length buf then Inl RangeError
      else Inr (copy_into (le_bytes 2 v) off buf))"

definition writeBigUInt64LE :: "nat \<Rightarrow> nat \<Rightarrow> buffer \<Rightarrow> error + buffer" where
  "writeBigUInt64LE v off buf =
     (if v \<ge> 2 ^ 64 \<or> off + 8 > length buf then Inl RangeError
      else Inr (copy_into (le_bytes 8 v) off buf))"

text \<open>
  \<open>buf.readUInt16LE(offset)\<close> and \<open>buf.readBigUInt64LE(offset)\<close>: a read past the end of
  the buffer throws a RangeError.
\<close>

definition readUInt16LE :: "buffer \<Rightarrow> nat \<Rightarrow> error + nat" where
  "readUInt16LE buf off =
     (if off + 2 > length buf then Inl RangeError
      else Inr (le_value (subarray buf off (off + 2))))"

definition readBigUInt64LE :: "buffer \<Rightarrow> nat \<Rightarrow> error + nat" where
  "readBigUInt64LE buf off =
     (if off + 8 > length buf then Inl RangeError
      else Inr (le_value (subarray buf off (off + 8))))"

text \<open>
  \<open>Number(bigint)\<close>: the nearest IEEE double, ties to even. \<open>exponent n\<close> is the number of
  low bits that do not fit the 53-bit significand.
\<close>

fun exponent :: "nat \<Rightarrow> nat" where
  "exponent n = (if n < 2 ^ 53 then 0 else Suc (exponent (n div 2)))"

declare exponent.simps [simp del]

definition to_Number :: "nat \<Rightarrow> nat" where
  "to_Number n =
     (let e = exponent n; q = n div 2 ^ e; r = n mod 2 ^ e in
      if 2 * r < 2 ^ e then q * 2 ^ e
      else if 2 * r > 2 ^ e then (q + 1) * 2 ^ e
      else (if even q then q else q + 1) * 2 ^ e)"

text \<open>The non-negative integers that are values of the JavaScript number type.\<close>

definition is_Number :: "nat \<Rightarrow> bool" where
  "is_Number n = (\<exists>m e. m < 2 ^ 53 \<and> n = m * 2 ^ e)"

record header =
  h_version :: nat
  h_flags :: nat
  h_compressed :: bool
  h_originalSize :: nat
  h_chunkIndex :: nat
  h_totalChunks :: nat
  h_filename :: string

text \<open>
  \<open>createHeader(filename, originalSize, chunkIndex, totalChunks, flags)\<close>: the writes in
  the order of the source; the first one that throws ends the call.
\<close>

definition createHeader :: "string \<Rightarrow> nat \<Rightarrow> nat \<Rightarrow> nat \<Rightarrow> nat \<Rightarrow> error + buffer" where
  "createHeader fname osize cidx tot flgs =
     (let header0 = replicate 64 (0 :: byte);
          header1 = copy_into (utf8_bytes MAGIC) 0 header0
      in andThen (writeUInt16LE 1 4 header1) (\<lambda>header2.
         andThen (writeUInt16LE flgs 6 header2) (\<lambda>header3.
         andThen (writeBigUInt64LE osize 8 header3) (\<lambda>header4.
         andThen (writeUInt16LE cidx 16 header4) (\<lambda>header5.
         andThen (writeUInt16LE tot 18 header5) (\<lambda>header6.
         let filenameBytes = subarray (utf8_bytes fname) 0 42 in
         andThen (writeUInt16LE (length filenameBytes) 20 header6) (\<lambda>header7.
         Inr (copy_into filenameBytes 22 header7))))))))"

text \<open>
  \<open>parseHeader(buffer)\<close>: the magic bytes are compared, then every field is read; the
  version is read and returned, and compared with nothing.
\<close>

definition parseHeader :: "buffer \<Rightarrow> error + header" where
  "parseHeader buf =
     (if utf8_string (subarray buf 0 4) \<noteq> MAGIC then Inl BadMagic
      else andThen (readUInt16LE buf 4) (\<lambda>ver.
           andThen (readUInt16LE buf 6) (\<lambda>flgs.
           andThen (readBigUInt64LE buf 8) (\<lambda>osize.
           andThen (readUInt16LE buf 16) (\<lambda>cidx.
           andThen (readUInt16LE buf 18) (\<lambda>tot.
           andThen (readUInt16LE buf 20) (\<lambda>filenameLength.
           Inr \<lparr> h_version = ver, h_flags = flgs, h_compressed = (flgs mod 2 = 1),
                 h_originalSize = to_Number osize, h_chunkIndex = cidx, h_totalChunks = tot,
                 h_filename = utf8_string (subarray buf 22 (22 + filenameLength)) \<rparr>)))))))"

text \<open>The 64 bytes that \<open>createHeader\<close> lays out, field after field.\<close>

definition frame_header :: "string \<Rightarrow> nat \<Rightarrow> nat \<Rightarrow> nat \<Rightarrow> nat \<Rightarrow> buffer" where
  "frame_header fname osize cidx tot flgs =
     utf8_bytes MAGIC @ le_bytes 2 1 @ le_bytes 2 flgs @ le_bytes 8 osize @ le_bytes 2 cidx @
     le_bytes 2 tot @ le_bytes 2 (length (take 42 (utf8_bytes fname))) @
     take 42 (utf8_bytes fname) @ replicate (42 - length fname) 0"

text \<open>The test of \<open>parseHeader\<close> on the first four bytes.\<close>

definition starts_with_magic :: "buffer \<Rightarrow> bool" where
  "starts_with_magic buf = (utf8_string (subarray buf 0 4) = MAGIC)"

section \<open>Library functions the code calls\<close>

text \<open>
  The functions of Node's \<open>crypto\<close>, \<open>zlib\<close> and \<open>path\<close> modules that the code calls are
  parameters of the model: the SHA-256 digest as hexadecimal text, gzip and gunzip
  (\<open>None\<close> when zlib rejects), the SHA-512 digest, the iteration of PBKDF2 over
  HMAC-SHA512 (the block that HMAC makes of its key, and the salt, to a key of 32 bytes
  after 100000 rounds), AES-256-GCM encryption (key, nonce and plaintext to ciphertext
  and tag) and decryption (\<open>None\<close> when the decipher rejects: a tag that does not verify,
  or a nonce or tag of a length it does not accept), \<open>path.extname\<close> and
  \<open>String.prototype.toLowerCase\<close>.
\<close>

record externals =
  sha256 :: "buffer \<Rightarrow> string"
  gzip :: "buffer \<Rightarrow> buffer option"
  gunzip :: "buffer \<Rightarrow> buffer option"
  sha512 :: "buffer \<Rightarrow> buffer"
  pbkdf2_hmac :: "buffer \<Rightarrow> buffer \<Rightarrow> buffer"
  gcm_encrypt :: "buffer \<Rightarrow> buffer \<Rightarrow> buffer \<Rightarrow> buffer \<times> buffer"
  gcm_decrypt :: "buffer \<Rightarrow> buffer \<Rightarrow> buffer \<Rightarrow> buffer \<Rightarrow> buffer option"
  extname :: "string \<Rightarrow> string"
  toLowerCase :: "string \<Rightarrow> string"

text \<open>
  \<open>crypto.pbkdf2Sync(password, salt, 100000, 32, 'sha512')\<close>. The password, a string, is
  taken as its UTF-8 bytes and serves as the key of HMAC-SHA512 in every round. HMAC
  (RFC 2104) uses its key only through a block of 128 bytes, the block length of
  SHA-512: a key longer than the block is replaced by its digest, and the key is then
  filled with zero bytes up to the block length.
\<close>

definition SHA512_BLOCK :: nat where
  "SHA512_BLOCK = 128"

definition hmac_key :: "externals \<Rightarrow> buffer \<Rightarrow> buffer" where
  "hmac_key ext key =
     (let k = (if length key > SHA512_BLOCK then sha512 ext key else key)
      in k @ replicate (SHA512_BLOCK - length k) 0)"

definition pbkdf2Sync :: "externals \<Rightarrow> string \<Rightarrow> buffer \<Rightarrow> buffer" where
  "pbkdf2Sync ext password salt = pbkdf2_hmac ext (hmac_key ext (utf8_bytes password)) salt"

text \<open>\<open>path.basename\<close> of a POSIX path: the last component, trailing slashes apart.\<close>

definition basename :: "string \<Rightarrow> string" where
  "basename p = rev (takeWhile (\<lambda>c. c \<noteq> CHR ''/'') (dropWhile (\<lambda>c. c = CHR ''/'') (rev p)))"

section \<open>Cipher (crypto/encryption.js)\<close>

definition TAG_LENGTH :: nat where
  "TAG_LENGTH = 16"

definition IV_LENGTH :: nat where
  "IV_LENGTH = 12"

definition SALT_LENGTH :: nat where
  "SALT_LENGTH = 32"

text \<open>\<open>deriveKey(salt)\<close> of an \<open>Encryptor\<close> made with the password.\<close>

definition deriveKey :: "externals \<Rightarrow> string \<Rightarrow> buffer \<Rightarrow> buffer" where
  "deriveKey ext password salt = pbkdf2Sync ext password salt"

text \<open>
  \<open>encrypt(data)\<close>. The salt and the nonce are the two results of \<open>crypto.randomBytes\<close>,
  inputs of the model. The result is salt, nonce, ciphertext and tag, in this order.
\<close>

definition encrypt :: "externals \<Rightarrow> string \<Rightarrow> buffer \<Rightarrow> buffer \<Rightarrow> buffer \<Rightarrow> buffer" where
  "encrypt ext password salt iv data =
     (let key = deriveKey ext password salt;
          (encrypted, authTag) = gcm_encrypt ext key iv data
      in salt @ iv @ encrypted @ authTag)"

text \<open>
  \<open>decrypt(encryptedData)\<close>. \<open>subarray(-TAG_LENGTH)\<close> is the last 16 bytes (all of a
  shorter buffer) and \<open>subarray(44, -TAG_LENGTH)\<close> what lies between the nonce and them.
  Whatever the decipher throws leaves the function; nothing is returned then.
\<close>

definition decrypt :: "externals \<Rightarrow> string \<Rightarrow> buffer \<Rightarrow> error + buffer" where
  "decrypt ext password encryptedData =
     (let salt = subarray encryptedData 0 SALT_LENGTH;
          iv = subarray encryptedData SALT_LENGTH (SALT_LENGTH + IV_LENGTH);
          authTag = drop (length encryptedData - TAG_LENGTH) encryptedData;
          ciphertext = subarray encryptedData (SALT_LENGTH + IV_LENGTH)
                         (length encryptedData - TAG_LENGTH);
          key = deriveKey ext password salt
      in case gcm_decrypt ext key iv ciphertext authTag of
           None \<Rightarrow> Inl AuthenticationError
         | Some plain \<Rightarrow> Inr plain)"

text \<open>\<open>hashData(data)\<close>, and \<open>hashFile(path)\<close> on the bytes of the file.\<close>

definition hashData :: "externals \<Rightarrow> buffer \<Rightarrow> string" where
  "hashData ext data = sha256 ext data"

section \<open>Compressor (utils/compression.js)\<close>

definition SKIP_COMPRESSION :: "string list" where
  "SKIP_COMPRESSION =
     [''.jpg'', ''.jpeg'', ''.png'', ''.gif'', ''.webp'', ''.avif'', ''.heic'', ''.heif'',
      ''.mp4'', ''.mkv'', ''.avi'', ''.mov'', ''.webm'', ''.m4v'',
      ''.mp3'', ''.aac'', ''.m4a'', ''.ogg'', ''.opus'', ''.flac'', ''.wma'',
      ''.zip'', ''.rar'', ''.7z'', ''.gz'', ''.bz2'', ''.xz'', ''.tar.gz'', ''.tgz'',
      ''.pdf'', ''.docx'', ''.xlsx'', ''.pptx'', ''.epub'',
      ''.dmg'', ''.iso'', ''.apk'', ''.ipa'']"

definition shouldSkip :: "externals \<Rightarrow> string \<Rightarrow> bool" where
  "shouldSkip ext fname = (toLowerCase ext (extname ext fname) \<in> set SKIP_COMPRESSION)"

text \<open>\<open>compress(data, filename)\<close>: the data to store and the compressed flag.\<close>

definition compress :: "externals \<Rightarrow> buffer \<Rightarrow> string \<Rightarrow> buffer \<times> bool" where
  "compress ext data fname =
     (if shouldSkip ext fname then (data, False)
      else case gzip ext data of
             None \<Rightarrow> (data, False)
           | Some packed \<Rightarrow> if length packed < length data then (packed, True) else (data, False))"

definition decompress :: "externals \<Rightarrow> buffer \<Rightarrow> bool \<Rightarrow> error + buffer" where
  "decompress ext data wasCompressed =
     (if \<not> wasCompressed then Inr data
      else case gunzip ext data of None \<Rightarrow> Inl DecompressError | Some plain \<Rightarrow> Inr plain)"

section \<open>Blob transport (telegram/client.js)\<close>

text \<open>
  The chat as the bot sees it: the documents sent and not deleted, each with its message
  number, its document token and its bytes; the next number and token to give out; and
  what the network does to the next Bot API calls (\<open>True\<close>: the call goes through; past
  the end of the list every call goes through).
\<close>

record telegram =
  tg_documents :: "(nat \<times> nat \<times> buffer) list"
  tg_next_message :: nat
  tg_next_file :: nat
  tg_outcomes :: "bool list"

record send_result =
  sr_messageId :: nat
  sr_fileId :: nat

definition api_call :: "telegram \<Rightarrow> telegram \<times> bool" where
  "api_call tg =
     (case tg_outcomes tg of [] \<Rightarrow> (tg, True) | b # bs \<Rightarrow> (tg \<lparr> tg_outcomes := bs \<rparr>, b))"

text \<open>\<open>initialize(token)\<close>: \<open>getMe\<close>, whose failure is rethrown.\<close>

definition initialize :: "telegram \<Rightarrow> telegram \<times> (error + unit)" where
  "initialize tg = (let (tg', ok) = api_call tg in (tg', if ok then Inr () else Inl TransportError))"

text \<open>
  \<open>sendFile(filePath, caption)\<close>, on the bytes of the file at \<open>filePath\<close>: \<open>sendDocument\<close>
  stores them under a new message number and document token.
\<close>

definition sendFile :: "telegram \<Rightarrow> buffer \<Rightarrow> telegram \<times> (error + send_result)" where
  "sendFile tg content =
     (let (tg', ok) = api_call tg in
        if \<not> ok then (tg', Inl TransportError)
        else (tg' \<lparr> tg_documents := tg_documents tg' @ [(tg_next_message tg', tg_next_file tg', content)],
                   tg_next_message := Suc (tg_next_message tg'),
                   tg_next_file := Suc (tg_next_file tg') \<rparr>,
              Inr \<lparr> sr_messageId = tg_next_message tg', sr_fileId = tg_next_file tg' \<rparr>))"

text \<open>\<open>TelegramClient.downloadFile(fileId)\<close>: the bytes stored under the token.\<close>

definition client_downloadFile :: "telegram \<Rightarrow> nat option \<Rightarrow> telegram \<times> (error + buffer)" where
  "client_downloadFile tg token =
     (let (tg', ok) = api_call tg in
        if \<not> ok then (tg', Inl TransportError)
        else (case find (\<lambda>(m, f, content). Some f = token) (tg_documents tg') of
                None \<Rightarrow> (tg', Inl TransportError)
              | Some (m, f, content) \<Rightarrow> (tg', Inr content)))"

text \<open>\<open>deleteMessage(messageId)\<close>: a failure is caught and answered with \<open>false\<close>.\<close>

definition deleteMessage :: "telegram \<Rightarrow> nat \<Rightarrow> telegram \<times> bool" where
  "deleteMessage tg msg =
     (let (tg', ok) = api_call tg in
        if ok \<and> list_ex (\<lambda>(m, f, content). m = msg) (tg_documents tg')
        then (tg' \<lparr> tg_documents := filter (\<lambda>(m, f, content). m \<noteq> msg) (tg_documents tg') \<rparr>, True)
        else (tg', False))"

section \<open>Metadata store (db/index.js)\<close>

text \<open>
  The tables are lists of rows in rowid order. \<open>files.id\<close> is AUTOINCREMENT, so the
  store keeps the largest id ever given out. The \<open>message_id\<close> column holds the decimal
  text of the transport's message number, and \<open>file_telegram_id\<close> the transport's
  document token; both are kept here as the numbers they render. The \<open>sync_state\<close>
  table is UNIQUE(folder_id, relative_path) and written by an upsert only, so it is a
  map from that pair to the hash and the modification time (\<open>stats.mtimeMs\<close>, a
  fractional number of milliseconds).
\<close>

record file_row =
  f_id :: nat
  f_filename :: string
  f_hash :: string
  f_original_size :: nat
  f_stored_size :: nat
  f_chunks :: nat
  f_compressed :: bool

record chunk_row =
  c_file_id :: nat
  c_chunk_index :: nat
  c_message_id :: nat
  c_file_telegram_id :: "nat option"
  c_size :: nat

record sync_folder_row =
  sf_id :: nat
  sf_local_path :: string
  sf_enabled :: bool

record sync_state_row =
  ss_file_hash :: string
  ss_mtime :: real

record database =
  files :: "file_row list"
  chunks :: "chunk_row list"
  files_seq :: nat
  sync_folders :: "sync_folder_row list"
  sync_state :: "nat \<times> string \<rightharpoonup> sync_state_row"

text \<open>The argument object of \<open>addFile\<close>.\<close>

record file_data =
  fd_filename :: string
  fd_hash :: string
  fd_originalSize :: nat
  fd_storedSize :: nat
  fd_chunks :: nat
  fd_compressed :: bool

text \<open>\<open>exists(hash)\<close>: \<open>SELECT 1 FROM files WHERE hash = ?\<close>.\<close>

definition exists :: "database \<Rightarrow> string \<Rightarrow> bool" where
  "exists db h = list_ex (\<lambda>r. f_hash r = h) (files db)"

text \<open>
  \<open>addFile(fileData)\<close>: the INSERT fails on the UNIQUE constraint of \<open>hash\<close>; otherwise
  the new row takes the next id, which is returned.
\<close>

definition addFile :: "database \<Rightarrow> file_data \<Rightarrow> error + (database \<times> nat)" where
  "addFile db fd =
     (if list_ex (\<lambda>r. f_hash r = fd_hash fd) (files db) then Inl ConstraintError
      else let i = Suc (files_seq db) in
        Inr (db \<lparr> files := files db @
                 [\<lparr> f_id = i, f_filename = fd_filename fd, f_hash = fd_hash fd,
                    f_original_size = fd_originalSize fd, f_stored_size = fd_storedSize fd,
                    f_chunks = fd_chunks fd, f_compressed = fd_compressed fd \<rparr>],
                 files_seq := i \<rparr>, i))"

text \<open>
  \<open>addChunk(fileId, chunkIndex, messageId, size)\<close>: the INSERT fails on
  UNIQUE(file_id, chunk_index) and on the foreign key to \<open>files\<close>.
\<close>

definition addChunk :: "database \<Rightarrow> nat \<Rightarrow> nat \<Rightarrow> nat \<Rightarrow> nat \<Rightarrow> error + database" where
  "addChunk db fileId chunkIndex messageId sz =
     (if list_ex (\<lambda>c. c_file_id c = fileId \<and> c_chunk_index c = chunkIndex) (chunks db)
         \<or> \<not> list_ex (\<lambda>r. f_id r = fileId) (files db)
      then Inl ConstraintError
      else Inr (db \<lparr> chunks := chunks db @
                 [\<lparr> c_file_id = fileId, c_chunk_index = chunkIndex, c_message_id = messageId,
                    c_file_telegram_id = None, c_size = sz \<rparr>] \<rparr>))"

text \<open>\<open>UPDATE chunks SET file_telegram_id = ? WHERE file_id = ? AND chunk_index = ?\<close>.\<close>

definition setFileTelegramId :: "database \<Rightarrow> nat \<Rightarrow> nat \<Rightarrow> nat \<Rightarrow> database" where
  "setFileTelegramId db tgId fileId chunkIndex =
     db \<lparr> chunks := map (\<lambda>c. if c_file_id c = fileId \<and> c_chunk_index c = chunkIndex
                               then c \<lparr> c_file_telegram_id := Some tgId \<rparr> else c) (chunks db) \<rparr>"

text \<open>\<open>getChunks(fileId)\<close>: \<open>SELECT * FROM chunks WHERE file_id = ? ORDER BY chunk_index\<close>.\<close>

definition getChunks :: "database \<Rightarrow> nat \<Rightarrow> chunk_row list" where
  "getChunks db fileId = sort_key c_chunk_index (filter (\<lambda>c. c_file_id c = fileId) (chunks db))"

text \<open>\<open>delete(fileId)\<close>: the row goes, and its chunks with it (ON DELETE CASCADE).\<close>

definition delete :: "database \<Rightarrow> nat \<Rightarrow> database" where
  "delete db fileId =
     db \<lparr> files := filter (\<lambda>r. f_id r \<noteq> fileId) (files db),
          chunks := filter (\<lambda>c. c_file_id c \<noteq> fileId) (chunks db) \<rparr>"

text \<open>
  SQLite's \<open>LIKE\<close> with its defaults: \<open>%\<close> matches any run of characters, \<open>_\<close> one
  character, letters of ASCII match in either case, and there is no escape character.
  A character is one UTF-8 sequence: a lead byte and the continuation bytes after it.
\<close>

definition tolower :: "char \<Rightarrow> char" where
  "tolower c = (let n = (of_char c :: nat) in if 65 \<le> n \<and> n \<le> 90 then char_of (n + 32) else c)"

definition skip_char :: "string \<Rightarrow> string" where
  "skip_char s =
     (case s of [] \<Rightarrow> []
      | c # cs \<Rightarrow> if (of_char c :: nat) \<ge> 192
                 then dropWhile (\<lambda>d. 128 \<le> (of_char d :: nat) \<and> (of_char d :: nat) < 192) cs
                 else cs)"

lemma skip_char_less: "s \<noteq> [] \<Longrightarrow> length (skip_char s) < length s"
proof -
  assume "s \<noteq> []"
  then obtain c cs where s: "s = c # cs" by (cases s) auto
  have "length (dropWhile (\<lambda>d. 128 \<le> (of_char d :: nat) \<and> (of_char d :: nat) < 192) cs) \<le> length cs"
    by (rule length_dropWhile_le)
  then show ?thesis by (simp add: s skip_char_def le_imp_less_Suc)
qed

function like :: "string \<Rightarrow> string \<Rightarrow> bool" where
  "like [] s = (s = [])"
| "like (p # ps) s =
     (if p = CHR ''%''
      then (if like ps s then True else if s = [] then False else like (p # ps) (skip_char s))
      else if p = CHR ''_'' then (if s = [] then False else like ps (skip_char s))
      else (case s of [] \<Rightarrow> False | c # cs \<Rightarrow> tolower p = tolower c \<and> like ps cs))"
  by pat_completeness auto
termination
  by (relation "measure (\<lambda>(p, s). length p + length s)")
     (auto simp: skip_char_less intro: less_SucI)

text \<open>
  \<open>findByHash(hash)\<close>: \<open>SELECT * FROM files WHERE hash = ? OR hash LIKE ?\<close> with the
  pattern \<open>hash + '%'\<close>; \<open>get\<close> returns the first row of the scan, if any.
\<close>

definition findByHash :: "database \<Rightarrow> string \<Rightarrow> file_row option" where
  "findByHash db h = find (\<lambda>r. f_hash r = h \<or> like (h @ ''%'') (f_hash r)) (files db)"

text \<open>
  \<open>findByName(filename)\<close>: \<open>SELECT * FROM files WHERE filename = ? OR filename LIKE ?\<close>
  with the pattern \<open>'%' + filename + '%'\<close>.
\<close>

definition findByName :: "database \<Rightarrow> string \<Rightarrow> file_row option" where
  "findByName db n =
     find (\<lambda>r. f_filename r = n \<or> like (''%'' @ n @ ''%'') (f_filename r)) (files db)"

section \<open>Transfer pipeline (index.js)\<close>

definition TELEGRAM_CHUNK_SIZE :: nat where
  "TELEGRAM_CHUNK_SIZE = 49 * 1024 * 1024"

text \<open>The metadata store and the chat, the two places an upload or a download changes.\<close>

record store =
  st_db :: database
  st_client :: telegram

text \<open>A call on the client, within the store: the chat changes, the rest stays.\<close>

definition on_client :: "store \<Rightarrow> (telegram \<Rightarrow> telegram \<times> 'a) \<Rightarrow> store \<times> 'a" where
  "on_client st f = (let (tg, r) = f (st_client st) in (st \<lparr> st_client := tg \<rparr>, r))"

record options =
  opt_password :: string
  opt_customName :: "string option"

record chunk =
  ch_index :: nat
  ch_total :: nat
  ch_data :: buffer

text \<open>
  An entry of \<open>chunkFiles\<close>: the index, the size, and for the path the bytes of the
  temporary file written there, which is what \<open>sendFile\<close> reads.
\<close>

record chunk_file =
  cf_index :: nat
  cf_content :: buffer
  cf_size :: nat

text \<open>
  The chunking loop of \<open>processFile\<close>: \<open>Math.ceil(length / size)\<close> slices of at most
  \<open>size\<close> bytes.
\<close>

definition split_chunks :: "nat \<Rightarrow> buffer \<Rightarrow> chunk list" where
  "split_chunks chunkSize encryptedData =
     (let numChunks = (length encryptedData + chunkSize - 1) div chunkSize in
      map (\<lambda>i. \<lparr> ch_index = i, ch_total = numChunks,
                  ch_data = subarray encryptedData (i * chunkSize)
                              (min (i * chunkSize + chunkSize) (length encryptedData)) \<rparr>)
          [0..<numChunks])"

text \<open>The loop that frames each chunk and writes its temporary file.\<close>

fun frame_chunks :: "string \<Rightarrow> nat \<Rightarrow> nat \<Rightarrow> chunk list \<Rightarrow> error + chunk_file list" where
  "frame_chunks fname osize flgs [] = Inr []"
| "frame_chunks fname osize flgs (c # cs) =
     andThen (createHeader fname osize (ch_index c) (ch_total c) flgs) (\<lambda>header.
     andThen (frame_chunks fname osize flgs cs) (\<lambda>rest.
       Inr (\<lparr> cf_index = ch_index c, cf_content = header @ ch_data c,
               cf_size = length (header @ ch_data c) \<rparr> # rest)))"

text \<open>
  The upload loop of \<open>processFile\<close>: send the chunk, then insert its row and set the
  row's document token. The first call that throws ends the loop, with the store and
  the chat as they are then.
\<close>

fun upload_chunks :: "store \<Rightarrow> nat \<Rightarrow> chunk_file list \<Rightarrow> store \<times> (error + unit)" where
  "upload_chunks st fid [] = (st, Inr ())"
| "upload_chunks st fid (c # cs) =
     thenS (on_client st (\<lambda>tg. sendFile tg (cf_content c))) (\<lambda>st1 result.
       case addChunk (st_db st1) fid (cf_index c) (sr_messageId result) (cf_size c) of
         Inl e \<Rightarrow> (st1, Inl e)
       | Inr db' \<Rightarrow>
           upload_chunks
             (st1 \<lparr> st_db := setFileTelegramId db' (sr_fileId result) fid (cf_index c) \<rparr>)
             fid cs)"

text \<open>
  \<open>processFile(filePath, options)\<close>, first part: everything up to the temporary chunk
  files. The file is read and hashed, a digest the store already has ends the call, the
  bytes are compressed, encrypted (\<open>salt\<close> and \<open>iv\<close> are the random bytes \<open>encrypt\<close>
  draws), cut and framed. \<open>fs\<close> is the local file system. Neither the store nor the chat
  has changed when this part ends.
\<close>

definition prepare ::
  "externals \<Rightarrow> (string \<rightharpoonup> buffer) \<Rightarrow> options \<Rightarrow> buffer \<Rightarrow> buffer \<Rightarrow> string \<Rightarrow> database
     \<Rightarrow> error + (file_data \<times> chunk_file list)" where
  "prepare ext fs opts salt iv filePath db =
     (let fname = (case opt_customName opts of
                     None \<Rightarrow> basename filePath
                   | Some n \<Rightarrow> if n = [] then basename filePath else n)
      in case fs filePath of
           None \<Rightarrow> Inl ReadError
         | Some fileData \<Rightarrow>
     (let originalSize = length fileData;
          hash = hashData ext fileData
      in if exists db hash then Inl DuplicateError
         else
     (let (compressedData, compressed) = compress ext fileData fname;
          encryptedData = encrypt ext (opt_password opts) salt iv compressedData;
          chunks = split_chunks TELEGRAM_CHUNK_SIZE encryptedData;
          flgs = (if compressed then 1 else 0)
      in andThen (frame_chunks fname originalSize flgs chunks) (\<lambda>chunkFiles.
           Inr (\<lparr> fd_filename = fname, fd_hash = hash, fd_originalSize = originalSize,
                   fd_storedSize = length encryptedData, fd_chunks = length chunks,
                   fd_compressed = compressed \<rparr>, chunkFiles)))))"

text \<open>
  \<open>processFile\<close>, second part, in the order of the source: connect, insert the File row
  with the number of chunks, then run the upload loop. The result is the store and the
  chat after the call, and the error thrown or the object returned.
\<close>

definition processFile ::
  "externals \<Rightarrow> (string \<rightharpoonup> buffer) \<Rightarrow> options \<Rightarrow> buffer \<Rightarrow> buffer \<Rightarrow> string \<Rightarrow> store
     \<Rightarrow> store \<times> (error + file_data)" where
  "processFile ext fs opts salt iv filePath st =
     (case prepare ext fs opts salt iv filePath (st_db st) of
        Inl e \<Rightarrow> (st, Inl e)
      | Inr (fd, chunkFiles) \<Rightarrow>
          thenS (on_client st initialize) (\<lambda>st1 u.
            case addFile (st_db st1) fd of
              Inl e \<Rightarrow> (st1, Inl e)
            | Inr (db', fid) \<Rightarrow>
                thenS (upload_chunks (st1 \<lparr> st_db := db' \<rparr>) fid chunkFiles)
                  (\<lambda>st2 u. (st2, Inr fd))))"

record downloaded_chunk =
  dc_index :: nat
  dc_total :: nat
  dc_data :: buffer
  dc_compressed :: bool

text \<open>
  The download loop of \<open>retrieveFile\<close> and of the mount's \<open>downloadFile\<close>: fetch the
  blob of each chunk row, parse its header and keep the header's index, total and
  compressed flag with the payload, in fetch order.
\<close>

fun download_chunks :: "telegram \<Rightarrow> chunk_row list \<Rightarrow> telegram \<times> (error + downloaded_chunk list)" where
  "download_chunks tg [] = (tg, Inr [])"
| "download_chunks tg (c # cs) =
     thenS (client_downloadFile tg (c_file_telegram_id c)) (\<lambda>tg' data.
       case parseHeader data of
         Inl e \<Rightarrow> (tg', Inl e)
       | Inr header \<Rightarrow>
           thenS (download_chunks tg' cs) (\<lambda>tg'' rest.
             (tg'', Inr (\<lparr> dc_index = h_chunkIndex header, dc_total = h_totalChunks header,
                            dc_data = drop HEADER_SIZE data,
                            dc_compressed = h_compressed header \<rparr> # rest))))"

text \<open>
  What follows the loop: \<open>sort\<close> by the header index (the sort is stable), concatenate,
  decrypt and decompress with the flag of the first chunk after the sort.
\<close>

definition reassemble :: "externals \<Rightarrow> string \<Rightarrow> downloaded_chunk list \<Rightarrow> error + buffer" where
  "reassemble ext password downloadedChunks =
     (let sorted = sort_key dc_index downloadedChunks;
          encryptedData = concat (map dc_data sorted)
      in andThen (decrypt ext password encryptedData) (\<lambda>compressedData.
           case sorted of
             [] \<Rightarrow> Inl TypeError
           | first # others \<Rightarrow> decompress ext compressedData (dc_compressed first)))"

text \<open>
  \<open>retrieveFile(fileRecord, options)\<close>; the value is the bytes written to the output
  path.
\<close>

definition retrieveFile :: "externals \<Rightarrow> string \<Rightarrow> file_row \<Rightarrow> store \<Rightarrow> store \<times> (error + buffer)" where
  "retrieveFile ext password fileRecord st =
     (let rows = getChunks (st_db st) (f_id fileRecord) in
      if rows = [] then (st, Inl NoChunkMetadata)
      else thenS (on_client st initialize) (\<lambda>st1 u.
           thenS (on_client st1 (\<lambda>tg. download_chunks tg rows)) (\<lambda>st2 downloadedChunks.
             (st2, reassemble ext password downloadedChunks))))"

section \<open>Virtual filesystem projection (fuse/mount.js)\<close>

record write_buffer =
  wb_data :: buffer
  wb_modified :: bool

record cache_entry =
  ce_data :: buffer
  ce_timestamp :: nat

text \<open>
  The state of a mount: the store and the chat, the \<open>writeBuffers\<close> map of the object and
  the \<open>fileCache\<close> map of the module, both keyed by name.
\<close>

record telegramfs =
  fs_store :: store
  writeBuffers :: "string \<rightharpoonup> write_buffer"
  fileCache :: "string \<rightharpoonup> cache_entry"

datatype errno = ENOENT | EIO

definition CACHE_TTL :: nat where
  "CACHE_TTL = 5 * 60 * 1000"

text \<open>
  \<open>getCached(filename)\<close>, with \<open>now\<close> for \<open>Date.now()\<close>: an entry older than the TTL is
  deleted and not returned.
\<close>

definition getCached :: "telegramfs \<Rightarrow> nat \<Rightarrow> string \<Rightarrow> telegramfs \<times> buffer option" where
  "getCached fs now fname =
     (case fileCache fs fname of
        None \<Rightarrow> (fs, None)
      | Some entry \<Rightarrow>
          if now - ce_timestamp entry > CACHE_TTL
          then (fs \<lparr> fileCache := (fileCache fs)(fname := None) \<rparr>, None)
          else (fs, Some (ce_data entry)))"

definition setCache :: "telegramfs \<Rightarrow> nat \<Rightarrow> string \<Rightarrow> buffer \<Rightarrow> telegramfs" where
  "setCache fs now fname data =
     fs \<lparr> fileCache := (fileCache fs)(fname \<mapsto> \<lparr> ce_data = data, ce_timestamp = now \<rparr>) \<rparr>"

definition invalidateCache :: "telegramfs \<Rightarrow> string \<Rightarrow> telegramfs" where
  "invalidateCache fs fname = fs \<lparr> fileCache := (fileCache fs)(fname := None) \<rparr>"

text \<open>
  \<open>downloadFile(filename)\<close> of the mount: the row is looked up by name, its chunks are
  fetched over the connection the mount holds, and reassembled as in \<open>retrieveFile\<close>.
\<close>

definition downloadFile :: "externals \<Rightarrow> string \<Rightarrow> string \<Rightarrow> store \<Rightarrow> store \<times> (error + buffer)" where
  "downloadFile ext password fname st =
     (case findByName (st_db st) fname of
        None \<Rightarrow> (st, Inl FileNotFound)
      | Some file \<Rightarrow>
          (let rows = getChunks (st_db st) (f_id file) in
           if rows = [] then (st, Inl NoChunksFound)
           else thenS (on_client st (\<lambda>tg. download_chunks tg rows)) (\<lambda>st1 downloadedChunks.
                  (st1, reassemble ext password downloadedChunks))))"

text \<open>The loop over the chunks of a row that deletes their messages; no call throws.\<close>

fun delete_messages :: "telegram \<Rightarrow> chunk_row list \<Rightarrow> telegram" where
  "delete_messages tg [] = tg"
| "delete_messages tg (c # cs) = delete_messages (fst (deleteMessage tg (c_message_id c))) cs"

text \<open>
  The first step of \<open>uploadFile\<close>, ``delete old version'': the row that \<open>findByName\<close>
  returns for the name, if any, is deleted with the messages of its chunks.
\<close>

definition delete_old_version :: "store \<Rightarrow> string \<Rightarrow> store" where
  "delete_old_version st fname =
     (case findByName (st_db st) fname of
        None \<Rightarrow> st
      | Some existingByName \<Rightarrow>
          \<lparr> st_db = delete (st_db st) (f_id existingByName),
            st_client = delete_messages (st_client st)
                          (getChunks (st_db st) (f_id existingByName)) \<rparr>)"

text \<open>
  \<open>uploadFile(filename, data)\<close> of the mount: after that first step, content whose hash
  is still indexed is skipped, and anything else is compressed, encrypted, sent as one
  chunk and then indexed.
\<close>

definition uploadFile ::
  "externals \<Rightarrow> string \<Rightarrow> buffer \<Rightarrow> buffer \<Rightarrow> string \<Rightarrow> buffer \<Rightarrow> store \<Rightarrow> store \<times> (error + unit)" where
  "uploadFile ext password salt iv fname data st =
     (let hash = hashData ext data;
          st1 = delete_old_version st fname
      in case findByHash (st_db st1) hash of
           Some existingByHash \<Rightarrow> (st1, Inr ())
         | None \<Rightarrow>
     (let (compressedData, compressed) = compress ext data fname;
          encryptedData = encrypt ext password salt iv compressedData;
          flgs = (if compressed then 1 else 0)
      in case createHeader fname (length data) 0 1 flgs of
           Inl e \<Rightarrow> (st1, Inl e)
         | Inr header \<Rightarrow>
     (let fileData = header @ encryptedData in
      thenS (on_client st1 (\<lambda>tg. sendFile tg fileData)) (\<lambda>st2 result.
        case addFile (st_db st2)
               \<lparr> fd_filename = fname, fd_hash = hash, fd_originalSize = length data,
                 fd_storedSize = length encryptedData, fd_chunks = 1,
                 fd_compressed = compressed \<rparr> of
          Inl e \<Rightarrow> (st2, Inl e)
        | Inr (db', fid) \<Rightarrow>
            (case addChunk db' fid 0 (sr_messageId result) (length fileData) of
               Inl e \<Rightarrow> (st2 \<lparr> st_db := db' \<rparr>, Inl e)
             | Inr db'' \<Rightarrow>
                 (st2 \<lparr> st_db := setFileTelegramId db'' (sr_fileId result) fid 0 \<rparr>, Inr ()))))))"

text \<open>
  \<open>read(filepath, fd, buffer, length, position, cb)\<close>: the value is the slice copied
  into the caller's buffer, whose length goes to the callback; any error becomes EIO.
\<close>

definition read ::
  "externals \<Rightarrow> string \<Rightarrow> nat \<Rightarrow> telegramfs \<Rightarrow> string \<Rightarrow> nat \<Rightarrow> nat \<Rightarrow> telegramfs \<times> (errno + buffer)" where
  "read ext password now fs filepath len position =
     (let fname = basename filepath;
          (fs1, cached) = getCached fs now fname
      in case cached of
           Some data \<Rightarrow> (fs1, Inr (subarray data position (position + len)))
         | None \<Rightarrow>
             (case downloadFile ext password fname (fs_store fs1) of
                (st, Inl e) \<Rightarrow> (fs1 \<lparr> fs_store := st \<rparr>, Inl EIO)
              | (st, Inr data) \<Rightarrow>
                  (setCache (fs1 \<lparr> fs_store := st \<rparr>) now fname data,
                   Inr (subarray data position (position + len)))))"

text \<open>
  \<open>write(filepath, fd, buffer, length, position, cb)\<close>: the buffer of the name is
  created if there is none, grown with zeros up to \<open>position + length\<close>, and the first
  \<open>length\<close> bytes of the caller's buffer are copied in at \<open>position\<close>. The value is what
  goes to the callback. (\<open>write\<close> is a keyword here, hence the name.)
\<close>

definition fs_write :: "telegramfs \<Rightarrow> string \<Rightarrow> buffer \<Rightarrow> nat \<Rightarrow> nat \<Rightarrow> telegramfs \<times> nat" where
  "fs_write fs filepath buf len position =
     (let fname = basename filepath;
          wb = (case writeBuffers fs fname of
                  None \<Rightarrow> \<lparr> wb_data = [], wb_modified = True \<rparr>
                | Some b \<Rightarrow> b);
          newSize = max (length (wb_data wb)) (position + len);
          grown = (if newSize > length (wb_data wb)
                   then wb_data wb @ replicate (newSize - length (wb_data wb)) 0
                   else wb_data wb)
      in (fs \<lparr> writeBuffers := (writeBuffers fs)
                  (fname \<mapsto> \<lparr> wb_data = copy_into (take len buf) position grown,
                              wb_modified = True \<rparr>) \<rparr>,
          len))"

text \<open>
  \<open>release(filepath, fd, cb)\<close>: a modified buffer is uploaded; after the upload the
  buffer is dropped and the cache entry of the name deleted.
\<close>

definition release ::
  "externals \<Rightarrow> string \<Rightarrow> buffer \<Rightarrow> buffer \<Rightarrow> telegramfs \<Rightarrow> string \<Rightarrow> telegramfs \<times> (errno + unit)" where
  "release ext password salt iv fs filepath =
     (let fname = basename filepath in
      case writeBuffers fs fname of
        None \<Rightarrow> (fs, Inr ())
      | Some wb \<Rightarrow>
          if \<not> wb_modified wb then (fs, Inr ())
          else (case uploadFile ext password salt iv fname (wb_data wb) (fs_store fs) of
                  (st, Inl e) \<Rightarrow> (fs \<lparr> fs_store := st \<rparr>, Inl EIO)
                | (st, Inr u) \<Rightarrow>
                    (invalidateCache
                       (fs \<lparr> fs_store := st, writeBuffers := (writeBuffers fs)(fname := None) \<rparr>)
                       fname,
                     Inr ())))"

text \<open>\<open>unlink(filepath, cb)\<close>.\<close>

definition unlink :: "telegramfs \<Rightarrow> string \<Rightarrow> telegramfs \<times> (errno + unit)" where
  "unlink fs filepath =
     (let fname = basename filepath in
      case findByName (st_db (fs_store fs)) fname of
        None \<Rightarrow> (fs, Inl ENOENT)
      | Some file \<Rightarrow>
          (invalidateCache
             (fs \<lparr> fs_store :=
                     \<lparr> st_db = delete (st_db (fs_store fs)) (f_id file),
                       st_client = delete_messages (st_client (fs_store fs))
                                     (getChunks (st_db (fs_store fs)) (f_id file)) \<rparr> \<rparr>)
             fname,
           Inr ()))"

text \<open>\<open>UPDATE files SET filename = ? WHERE id = ?\<close>.\<close>

definition setFilename :: "database \<Rightarrow> string \<Rightarrow> nat \<Rightarrow> database" where
  "setFilename db newName fileId =
     db \<lparr> files := map (\<lambda>r. if f_id r = fileId then r \<lparr> f_filename := newName \<rparr> else r) (files db) \<rparr>"

text \<open>
  \<open>rename(src, dest, cb)\<close>: the row found under the old name takes the new name, and a
  cache entry under the old name moves to the new one.
\<close>

definition rename :: "telegramfs \<Rightarrow> string \<Rightarrow> string \<Rightarrow> telegramfs \<times> (errno + unit)" where
  "rename fs src dest =
     (let oldName = basename src; newName = basename dest in
      case findByName (st_db (fs_store fs)) oldName of
        None \<Rightarrow> (fs, Inl ENOENT)
      | Some file \<Rightarrow>
          (let fs1 = fs \<lparr> fs_store := (fs_store fs)
                          \<lparr> st_db := setFilename (st_db (fs_store fs)) newName (f_id file) \<rparr> \<rparr>
           in case fileCache fs1 oldName of
                None \<Rightarrow> (fs1, Inr ())
              | Some cached \<Rightarrow>
                  (fs1 \<lparr> fileCache := ((fileCache fs1)(oldName := None))(newName \<mapsto> cached) \<rparr>,
                   Inr ())))"

section \<open>Sync engine (sync/sync.js)\<close>

text \<open>\<open>getSyncFolderByPath(localPath)\<close>.\<close>

definition getSyncFolderByPath :: "database \<Rightarrow> string \<Rightarrow> sync_folder_row option" where
  "getSyncFolderByPath db localPath = find (\<lambda>f. sf_local_path f = localPath) (sync_folders db)"

text \<open>
  \<open>updateSyncState(folderId, relativePath, fileHash, mtime)\<close>: insert, or on conflict
  set the hash and the modification time.
\<close>

definition updateSyncState :: "database \<Rightarrow> nat \<Rightarrow> string \<Rightarrow> string \<Rightarrow> real \<Rightarrow> database" where
  "updateSyncState db folderId relativePath fileHash mtime =
     db \<lparr> sync_state := (sync_state db)
            ((folderId, relativePath) \<mapsto> \<lparr> ss_file_hash = fileHash, ss_mtime = mtime \<rparr>) \<rparr>"

text \<open>
  \<open>stateMap\<close> of \<open>syncFolder\<close>: the rows of \<open>getFolderSyncStates(folder.id)\<close> keyed by
  their relative path, as they are when the scan starts.
\<close>

definition folderStateMap :: "database \<Rightarrow> nat \<Rightarrow> (string \<rightharpoonup> sync_state_row)" where
  "folderStateMap db folderId = (\<lambda>relativePath. sync_state db (folderId, relativePath))"

text \<open>An entry of the list \<open>scanDirectory\<close> returns.\<close>

record scanned_file =
  sc_path :: string
  sc_relativePath :: string
  sc_mtime :: real
  sc_size :: nat

record sync_counts =
  uploaded :: nat
  skipped :: nat

text \<open>
  The loop of \<open>syncFolder\<close> over the scanned files. \<open>random\<close> gives the salt and nonce
  drawn for the upload of a path. A file whose hash cannot be computed rejects the
  whole call; an upload that throws is caught: a duplicate counts as skipped and its
  state is written, any other error is reported as an event and nothing is counted or
  written. The catch recognises a duplicate by \<open>err.message.includes('duplicate')\<close>; of the
  errors of this development only that of \<open>DuplicateError\<close>, \<open>File already uploaded
  (duplicate hash)\<close>, contains the word.
\<close>

fun sync_files ::
  "externals \<Rightarrow> (string \<rightharpoonup> buffer) \<Rightarrow> string \<Rightarrow> (string \<Rightarrow> buffer \<times> buffer) \<Rightarrow> nat
     \<Rightarrow> (string \<rightharpoonup> sync_state_row) \<Rightarrow> scanned_file list \<Rightarrow> store \<Rightarrow> sync_counts
     \<Rightarrow> store \<times> (error + sync_counts)" where
  "sync_files ext fs password random folderId stateMap [] st counts = (st, Inr counts)"
| "sync_files ext fs password random folderId stateMap (file # rest) st counts =
     (let existing = stateMap (sc_relativePath file) in
      if (case existing of None \<Rightarrow> False | Some e \<Rightarrow> ss_mtime e \<ge> sc_mtime file)
      then sync_files ext fs password random folderId stateMap rest st
             (counts \<lparr> skipped := skipped counts + 1 \<rparr>)
      else
        (case fs (sc_path file) of
           None \<Rightarrow> (st, Inl ReadError)
         | Some content \<Rightarrow>
             (let hash = hashData ext content in
              if (case existing of None \<Rightarrow> False | Some e \<Rightarrow> ss_file_hash e = hash)
              then sync_files ext fs password random folderId stateMap rest
                     (st \<lparr> st_db := updateSyncState (st_db st) folderId (sc_relativePath file)
                                       hash (sc_mtime file) \<rparr>)
                     (counts \<lparr> skipped := skipped counts + 1 \<rparr>)
              else
                (case processFile ext fs
                        \<lparr> opt_password = password, opt_customName = Some (sc_relativePath file) \<rparr>
                        (fst (random (sc_path file))) (snd (random (sc_path file)))
                        (sc_path file) st of
                   (st', Inr result) \<Rightarrow>
                     sync_files ext fs password random folderId stateMap rest
                       (st' \<lparr> st_db := updateSyncState (st_db st') folderId (sc_relativePath file)
                                          hash (sc_mtime file) \<rparr>)
                       (counts \<lparr> uploaded := uploaded counts + 1 \<rparr>)
                 | (st', Inl err) \<Rightarrow>
                     if err = DuplicateError
                     then sync_files ext fs password random folderId stateMap rest
                            (st' \<lparr> st_db := updateSyncState (st_db st') folderId
                                               (sc_relativePath file) hash (sc_mtime file) \<rparr>)
                            (counts \<lparr> skipped := skipped counts + 1 \<rparr>)
                     else sync_files ext fs password random folderId stateMap rest st' counts))))"

text \<open>
  \<open>syncFolder(folderPath)\<close>, given the list that \<open>scanDirectory(folderPath)\<close> returns.
\<close>

definition syncFolder ::
  "externals \<Rightarrow> (string \<rightharpoonup> buffer) \<Rightarrow> string \<Rightarrow> (string \<Rightarrow> buffer \<times> buffer) \<Rightarrow> string
     \<Rightarrow> scanned_file list \<Rightarrow> store \<Rightarrow> store \<times> (error + sync_counts)" where
  "syncFolder ext fs password random folderPath scanned st =
     (case getSyncFolderByPath (st_db st) folderPath of
        None \<Rightarrow> (st, Inl FolderNotRegistered)
      | Some folder \<Rightarrow>
          sync_files ext fs password random (sf_id folder)
            (folderStateMap (st_db st) (sf_id folder)) scanned st
            \<lparr> uploaded = 0, skipped = 0 \<rparr>)"

section \<open>Notions the statements use\<close>

text \<open>
  What the AUTOINCREMENT counter and the foreign key of \<open>chunks\<close> keep true of a store:
  no row carries a file id that has not been given out yet.
\<close>

definition db_ok :: "database \<Rightarrow> bool" where
  "db_ok db = (list_all (\<lambda>r. f_id r \<le> files_seq db) (files db) \<and>
               list_all (\<lambda>c. c_file_id c \<le> files_seq db) (chunks db))"

text \<open>The Chunk rows of a file, in table order.\<close>

definition rows_of :: "database \<Rightarrow> nat \<Rightarrow> chunk_row list" where
  "rows_of db fid = filter (\<lambda>c. c_file_id c = fid) (chunks db)"

text \<open>The next \<open>n\<close> Bot API calls go through.\<close>

fun calls_ok :: "nat \<Rightarrow> bool list \<Rightarrow> bool" where
  "calls_ok 0 outs = True"
| "calls_ok (Suc n) [] = True"
| "calls_ok (Suc n) (b # bs) = (b \<and> calls_ok n bs)"

text \<open>The row that \<open>addFile\<close> inserts under a given id.\<close>

definition file_row_of :: "nat \<Rightarrow> file_data \<Rightarrow> file_row" where
  "file_row_of i fd =
     \<lparr> f_id = i, f_filename = fd_filename fd, f_hash = fd_hash fd,
       f_original_size = fd_originalSize fd, f_stored_size = fd_storedSize fd,
       f_chunks = fd_chunks fd, f_compressed = fd_compressed fd \<rparr>"

section \<open>Inputs of the worked examples\<close>

text \<open>
  Stand-ins for the library functions, small enough to compute with: the digest is the
  text of the bytes, nothing compresses, the SHA-512 digest is the first 64 bytes, the
  derived key is the HMAC block without the zero bytes at its end, and the cipher writes
  the key in front of the plaintext (its length in unary first) under a constant tag, so
  that decryption under any other key is rejected.
\<close>

definition example_externals :: externals where
  "example_externals =
     \<lparr> sha256 = utf8_string,
       gzip = (\<lambda>data. None),
       gunzip = (\<lambda>data. None),
       sha512 = (\<lambda>data. take 64 data),
       pbkdf2_hmac = (\<lambda>key salt. rev (dropWhile (\<lambda>b. b = 0) (rev key))),
       gcm_encrypt = (\<lambda>key iv plain.
          (replicate (length key) 1 @ [0] @ key @ plain, replicate 16 0)),
       gcm_decrypt = (\<lambda>key iv ciphertext tag.
          if length tag = 16 \<and>
             take (2 * length key + 1) ciphertext = replicate (length key) 1 @ [0] @ key
          then Some (drop (2 * length key + 1) ciphertext) else None),
       extname = (\<lambda>path. []),
       toLowerCase = (\<lambda>text. text) \<rparr>"

text \<open>An empty store, and an empty chat on a network that does \<open>outs\<close>.\<close>

definition empty_database :: database where
  "empty_database = \<lparr> files = [], chunks = [], files_seq = 0, sync_folders = [], sync_state = Map.empty \<rparr>"

definition chat :: "bool list \<Rightarrow> telegram" where
  "chat outs = \<lparr> tg_documents = [], tg_next_message = 1, tg_next_file = 1, tg_outcomes = outs \<rparr>"

text \<open>A two-byte file and the options of an upload under its own name.\<close>

definition example_fs :: "string \<rightharpoonup> buffer" where
  "example_fs = [''a.txt'' \<mapsto> utf8_bytes ''hi'']"

definition example_options :: options where
  "example_options = \<lparr> opt_password = ''pw'', opt_customName = Some ''a.txt'' \<rparr>"

text \<open>
  What the round trip needs of the library's cipher: AES-256-GCM returns a 16-byte tag
  and decrypts under the same key and nonce what it encrypted. Nothing is assumed about
  decryption under another key, nor about the keys PBKDF2 derives.
\<close>

definition cipher_contract :: "externals \<Rightarrow> bool" where
  "cipher_contract ext =
     (\<forall>key iv plain. length (snd (gcm_encrypt ext key iv plain)) = TAG_LENGTH \<and>
          gcm_decrypt ext key iv (fst (gcm_encrypt ext key iv plain))
            (snd (gcm_encrypt ext key iv plain)) = Some plain)"

text \<open>
  A file stored as two chunks whose blobs were framed with the indices exchanged: the
  row of chunk 0 points to the blob whose header says 1 and holds the second part of
  the encrypted bytes, and the row of chunk 1 to the blob whose header says 0.
\<close>

definition example_encrypted :: buffer where
  "example_encrypted =
     encrypt example_externals ''pw'' (replicate 32 0) (replicate 12 0) (utf8_bytes ''hi'')"

definition example_row :: file_row where
  "example_row = \<lparr> f_id = 1, f_filename = ''a.txt'', f_hash = ''hi'', f_original_size = 2,
                    f_stored_size = 67, f_chunks = 2, f_compressed = False \<rparr>"

definition swapped_store :: store where
  "swapped_store =
     \<lparr> st_db = empty_database
         \<lparr> files := [example_row],
           chunks := [\<lparr> c_file_id = 1, c_chunk_index = 0, c_message_id = 1,
                         c_file_telegram_id = Some 1, c_size = 91 \<rparr>,
                      \<lparr> c_file_id = 1, c_chunk_index = 1, c_message_id = 2,
                         c_file_telegram_id = Some 2, c_size = 104 \<rparr>],
           files_seq := 1 \<rparr>,
       st_client =
         \<lparr> tg_documents =
             [(1, 1, frame_header ''a.txt'' 2 1 2 0 @ drop 40 example_encrypted),
              (2, 2, frame_header ''a.txt'' 2 0 2 0 @ take 40 example_encrypted)],
           tg_next_message = 3, tg_next_file = 3, tg_outcomes = [] \<rparr> \<rparr>"

text \<open>The same store with the two chunk rows numbered 5 and 9.\<close>

definition renumbered_store :: store where
  "renumbered_store =
     swapped_store \<lparr> st_db := (st_db swapped_store)
       \<lparr> chunks := [\<lparr> c_file_id = 1, c_chunk_index = 5, c_message_id = 1,
                         c_file_telegram_id = Some 1, c_size = 91 \<rparr>,
                      \<lparr> c_file_id = 1, c_chunk_index = 9, c_message_id = 2,
                         c_file_telegram_id = Some 2, c_size = 104 \<rparr>] \<rparr> \<rparr>"

text \<open>
  A mount with nothing stored: the cache holds the bytes \<open>old\<close> for \<open>a.txt\<close>, and a
  modified write buffer holds \<open>new\<close> for \<open>a.txt\<close> and for \<open>b.txt\<close>.
\<close>

definition example_mount :: telegramfs where
  "example_mount =
     \<lparr> fs_store = \<lparr> st_db = empty_database, st_client = chat [] \<rparr>,
       writeBuffers = [''a.txt'' \<mapsto> \<lparr> wb_data = utf8_bytes ''new'', wb_modified = True \<rparr>,
                       ''b.txt'' \<mapsto> \<lparr> wb_data = utf8_bytes ''new'', wb_modified = True \<rparr>],
       fileCache = [''a.txt'' \<mapsto> \<lparr> ce_data = utf8_bytes ''old'', ce_timestamp = 1000 \<rparr>] \<rparr>"

text \<open>
  A mount that stores \<open>a.txt\<close> (one chunk, sent as message 1) and has its bytes \<open>old\<close>
  in the cache; no write buffer is open.
\<close>

definition cached_mount :: telegramfs where
  "cached_mount =
     \<lparr> fs_store =
         \<lparr> st_db = empty_database
             \<lparr> files := [\<lparr> f_id = 1, f_filename = ''a.txt'', f_hash = ''old'',
                            f_original_size = 3, f_stored_size = 68, f_chunks = 1,
                            f_compressed = False \<rparr>],
               chunks := [\<lparr> c_file_id = 1, c_chunk_index = 0, c_message_id = 1,
                             c_file_telegram_id = Some 1, c_size = 132 \<rparr>],
               files_seq := 1 \<rparr>,
           st_client =
             \<lparr> tg_documents =
                 [(1, 1, frame_header ''a.txt'' 3 0 1 0 @
                    encrypt example_externals ''pw'' (replicate 32 0) (replicate 12 0)
                      (utf8_bytes ''old''))],
               tg_next_message = 2, tg_next_file = 2, tg_outcomes = [] \<rparr> \<rparr>,
       writeBuffers = Map.empty,
       fileCache = [''a.txt'' \<mapsto> \<lparr> ce_data = utf8_bytes ''old'', ce_timestamp = 1000 \<rparr>] \<rparr>"

text \<open>
  A mount whose index has two rows named \<open>n.txt\<close>, as two uploads of different bytes
  under one name leave them, and the bytes \<open>new\<close> stored as \<open>m.txt\<close>; the modified buffer
  of \<open>n.txt\<close> holds the bytes \<open>new\<close>. The second mount has only the first row named
  \<open>n.txt\<close>.
\<close>

definition two_names_mount :: telegramfs where
  "two_names_mount =
     \<lparr> fs_store =
         \<lparr> st_db = empty_database
             \<lparr> files := [\<lparr> f_id = 1, f_filename = ''n.txt'', f_hash = ''v1'',
                            f_original_size = 2, f_stored_size = 67, f_chunks = 1,
                            f_compressed = False \<rparr>,
                         \<lparr> f_id = 2, f_filename = ''n.txt'', f_hash = ''v2'',
                            f_original_size = 2, f_stored_size = 67, f_chunks = 1,
                            f_compressed = False \<rparr>,
                         \<lparr> f_id = 3, f_filename = ''m.txt'', f_hash = ''new'',
                            f_original_size = 3, f_stored_size = 68, f_chunks = 1,
                            f_compressed = False \<rparr>],
               files_seq := 3 \<rparr>,
           st_client = chat [] \<rparr>,
       writeBuffers = [''n.txt'' \<mapsto> \<lparr> wb_data = utf8_bytes ''new'', wb_modified = True \<rparr>],
       fileCache = [''n.txt'' \<mapsto> \<lparr> ce_data = utf8_bytes ''v1'', ce_timestamp = 1000 \<rparr>] \<rparr>"

definition one_name_mount :: telegramfs where
  "one_name_mount =
     two_names_mount \<lparr> fs_store := (fs_store two_names_mount)
       \<lparr> st_db := (st_db (fs_store two_names_mount))
           \<lparr> files := [\<lparr> f_id = 1, f_filename = ''n.txt'', f_hash = ''v1'',
                            f_original_size = 2, f_stored_size = 67, f_chunks = 1,
                            f_compressed = False \<rparr>,
                         \<lparr> f_id = 3, f_filename = ''m.txt'', f_hash = ''new'',
                            f_original_size = 3, f_stored_size = 68, f_chunks = 1,
                            f_compressed = False \<rparr>] \<rparr> \<rparr> \<rparr>"

text \<open>The two tables of the sync engine are the same in two stores.\<close>

definition same_sync :: "database \<Rightarrow> database \<Rightarrow> bool" where
  "same_sync db db' = (sync_state db' = sync_state db \<and> sync_folders db' = sync_folders db)"

text \<open>
  The two tests of the loop on the state kept for a file: the persisted modification
  time is at least the current one; the persisted hash is the given one.
\<close>

definition mtime_current :: "(string \<rightharpoonup> sync_state_row) \<Rightarrow> scanned_file \<Rightarrow> bool" where
  "mtime_current stateMap file =
     (case stateMap (sc_relativePath file) of
        None \<Rightarrow> False | Some e \<Rightarrow> ss_mtime e \<ge> sc_mtime file)"

definition hash_unchanged :: "(string \<rightharpoonup> sync_state_row) \<Rightarrow> scanned_file \<Rightarrow> string \<Rightarrow> bool" where
  "hash_unchanged stateMap file h =
     (case stateMap (sc_relativePath file) of
        None \<Rightarrow> False | Some e \<Rightarrow> ss_file_hash e = h)"

text \<open>The store with the state of a file written, as \<open>updateSyncState\<close> writes it.\<close>

definition persist :: "store \<Rightarrow> nat \<Rightarrow> scanned_file \<Rightarrow> string \<Rightarrow> store" where
  "persist st folderId file h =
     st \<lparr> st_db := updateSyncState (st_db st) folderId (sc_relativePath file) h (sc_mtime file) \<rparr>"

text \<open>
  A registered folder \<open>/docs\<close> with the one file \<open>a.txt\<close>, nothing synced yet, on a
  network that does \<open>outs\<close>.
\<close>

definition sync_fs :: "string \<rightharpoonup> buffer" where
  "sync_fs = [''/docs/a.txt'' \<mapsto> utf8_bytes ''hi'']"

definition sync_scan :: "scanned_file list" where
  "sync_scan = [\<lparr> sc_path = ''/docs/a.txt'', sc_relativePath = ''a.txt'', sc_mtime = 1000, sc_size = 2 \<rparr>]"

definition sync_random :: "string \<Rightarrow> buffer \<times> buffer" where
  "sync_random = (\<lambda>path. (replicate 32 0, replicate 12 0))"

definition sync_store :: "bool list \<Rightarrow> store" where
  "sync_store outs =
     \<lparr> st_db = empty_database
         \<lparr> sync_folders := [\<lparr> sf_id = 1, sf_local_path = ''/docs'', sf_enabled = True \<rparr>] \<rparr>,
       st_client = chat outs \<rparr>"

section \<open>Properties of the frame codec\<close>

lemma length_le_bytes: "length (le_bytes n v) = n"
  by (induction n arbitrary: v) auto

lemma le_value_le_bytes: "v < 256 ^ n \<Longrightarrow> le_value (le_bytes n v) = v"
proof (induction n arbitrary: v)
  case 0
  then show ?case by simp
next
  case (Suc n)
  have "v div 256 < 256 ^ n"
    using Suc.prems by (simp add: less_mult_imp_div_less mult.commute)
  then have "le_value (le_bytes n (v div 256)) = v div 256"
    by (rule Suc.IH)
  moreover have "unat (of_nat (v mod 256) :: byte) = v mod 256"
    by (simp add: unat_of_nat)
  ultimately show ?case by simp
qed

lemma copy_into_mid:
  "length pre = off \<Longrightarrow> length src \<le> length rest \<Longrightarrow>
   copy_into src off (pre @ rest) = pre @ src @ drop (length src) rest"
  by (simp add: copy_into_def)

lemma subarray_mid:
  "length pre = off \<Longrightarrow> stop = off + length mid \<Longrightarrow> subarray (pre @ mid @ post) off stop = mid"
  by (simp add: subarray_def)

lemma utf8_string_bytes: "utf8_string (utf8_bytes s) = s"
  by (induction s) (simp_all add: utf8_string_def utf8_bytes_def unat_of_nat)

lemma length_utf8_bytes: "length (utf8_bytes s) = length s"
  by (simp add: utf8_bytes_def)

lemma exponent_dvd: "m < 2 ^ 53 \<Longrightarrow> n = m * 2 ^ k \<Longrightarrow> 2 ^ exponent n dvd n"
proof (induction n arbitrary: k rule: exponent.induct)
  case (1 n)
  show ?case
  proof (cases "n < 2 ^ 53")
    case True
    then show ?thesis by (simp add: exponent.simps)
  next
    case False
    then have "k \<noteq> 0" using 1(2,3) by (cases k) auto
    then obtain k' where k: "k = Suc k'" by (cases k) auto
    then have half: "n div 2 = m * 2 ^ k'" using 1(3) by simp
    have "2 ^ exponent (n div 2) dvd n div 2"
      using "1.IH" [OF False 1(2) half] .
    moreover have "n = 2 * (n div 2)" using 1(3) k by simp
    ultimately have "2 * 2 ^ exponent (n div 2) dvd n"
      by (metis mult_dvd_mono dvd_refl)
    then show ?thesis using False by (simp add: exponent.simps [of n])
  qed
qed

lemma to_Number_exact: "is_Number n \<Longrightarrow> to_Number n = n"
proof -
  assume "is_Number n"
  then obtain m k where "m < 2 ^ 53" "n = m * 2 ^ k" by (auto simp: is_Number_def)
  then have "2 ^ exponent n dvd n" by (rule exponent_dvd)
  then have "n mod 2 ^ exponent n = 0" "n div 2 ^ exponent n * 2 ^ exponent n = n"
    by auto
  then show ?thesis by (simp add: to_Number_def Let_def)
qed


lemma createHeader_layout:
  assumes "flgs \<le> 65535" "osize < 2 ^ 64" "cidx \<le> 65535" "tot \<le> 65535"
  shows "createHeader fname osize cidx tot flgs = Inr (frame_header fname osize cidx tot flgs)"
proof -
  let ?m = "utf8_bytes MAGIC"
  let ?fb = "take 42 (utf8_bytes fname)"
  have lm: "length ?m = 4" by (simp add: utf8_bytes_def MAGIC_def)
  have h1: "copy_into ?m 0 (replicate 64 0) = ?m @ replicate 60 0"
    using copy_into_mid [of "[]" 0 ?m "replicate 64 0"] lm by simp
  have h2: "copy_into (le_bytes 2 1) 4 (?m @ replicate 60 0) = ?m @ le_bytes 2 1 @ replicate 58 0"
    using copy_into_mid [of ?m 4 "le_bytes 2 1" "replicate 60 0"] lm
    by (simp add: length_le_bytes)
  have h3: "copy_into (le_bytes 2 flgs) 6 (?m @ le_bytes 2 1 @ replicate 58 0)
              = ?m @ le_bytes 2 1 @ le_bytes 2 flgs @ replicate 56 0"
    using copy_into_mid [of "?m @ le_bytes 2 1" 6 "le_bytes 2 flgs" "replicate 58 0"] lm
    by (simp add: length_le_bytes)
  have h4: "copy_into (le_bytes 8 osize) 8 (?m @ le_bytes 2 1 @ le_bytes 2 flgs @ replicate 56 0)
              = ?m @ le_bytes 2 1 @ le_bytes 2 flgs @ le_bytes 8 osize @ replicate 48 0"
    using copy_into_mid [of "?m @ le_bytes 2 1 @ le_bytes 2 flgs" 8 "le_bytes 8 osize" "replicate 56 0"] lm
    by (simp add: length_le_bytes)
  have h5: "copy_into (le_bytes 2 cidx) 16
              (?m @ le_bytes 2 1 @ le_bytes 2 flgs @ le_bytes 8 osize @ replicate 48 0)
              = ?m @ le_bytes 2 1 @ le_bytes 2 flgs @ le_bytes 8 osize @ le_bytes 2 cidx @ replicate 46 0"
    using copy_into_mid [of "?m @ le_bytes 2 1 @ le_bytes 2 flgs @ le_bytes 8 osize" 16
        "le_bytes 2 cidx" "replicate 48 0"] lm
    by (simp add: length_le_bytes)
  have h6: "copy_into (le_bytes 2 tot) 18
              (?m @ le_bytes 2 1 @ le_bytes 2 flgs @ le_bytes 8 osize @ le_bytes 2 cidx @ replicate 46 0)
              = ?m @ le_bytes 2 1 @ le_bytes 2 flgs @ le_bytes 8 osize @ le_bytes 2 cidx @
                le_bytes 2 tot @ replicate 44 0"
    using copy_into_mid [of "?m @ le_bytes 2 1 @ le_bytes 2 flgs @ le_bytes 8 osize @ le_bytes 2 cidx" 18
        "le_bytes 2 tot" "replicate 46 0"] lm
    by (simp add: length_le_bytes)
  have h7: "copy_into (le_bytes 2 (length ?fb)) 20
              (?m @ le_bytes 2 1 @ le_bytes 2 flgs @ le_bytes 8 osize @ le_bytes 2 cidx @
                le_bytes 2 tot @ replicate 44 0)
              = ?m @ le_bytes 2 1 @ le_bytes 2 flgs @ le_bytes 8 osize @ le_bytes 2 cidx @
                le_bytes 2 tot @ le_bytes 2 (length ?fb) @ replicate 42 0"
    using copy_into_mid [of "?m @ le_bytes 2 1 @ le_bytes 2 flgs @ le_bytes 8 osize @ le_bytes 2 cidx @ le_bytes 2 tot" 20
        "le_bytes 2 (length ?fb)" "replicate 44 0"] lm
    by (simp add: length_le_bytes)
  have h8: "copy_into ?fb 22
              (?m @ le_bytes 2 1 @ le_bytes 2 flgs @ le_bytes 8 osize @ le_bytes 2 cidx @
                le_bytes 2 tot @ le_bytes 2 (length ?fb) @ replicate 42 0)
              = frame_header fname osize cidx tot flgs"
    using copy_into_mid [of "?m @ le_bytes 2 1 @ le_bytes 2 flgs @ le_bytes 8 osize @ le_bytes 2 cidx @ le_bytes 2 tot @ le_bytes 2 (length ?fb)" 22
        ?fb "replicate 42 0"] lm
    by (simp add: length_le_bytes frame_header_def length_utf8_bytes)
  have lens: "length ?fb \<le> 65535" by simp
  show ?thesis
    unfolding createHeader_def Let_def subarray_def
    using assms lens
    by (simp add: writeUInt16LE_def writeBigUInt64LE_def andThen_def h1 h2 h3 h4 h5 h6 h7 h8 lm length_le_bytes del: le_bytes.simps length_take One_nat_def)
qed


lemma parseHeader_layout:
  assumes fb: "length fb \<le> 42"
    and f: "flgs < 2 ^ 16" and c: "cidx < 2 ^ 16" and t: "tot < 2 ^ 16" and v: "ver < 2 ^ 16"
    and z: "osize < 2 ^ 64"
  shows "parseHeader (utf8_bytes MAGIC @ le_bytes 2 ver @ le_bytes 2 flgs @ le_bytes 8 osize @
            le_bytes 2 cidx @ le_bytes 2 tot @ le_bytes 2 (length fb) @ fb @ pad)
         = Inr \<lparr> h_version = ver, h_flags = flgs, h_compressed = (flgs mod 2 = 1),
                 h_originalSize = to_Number osize, h_chunkIndex = cidx, h_totalChunks = tot,
                 h_filename = utf8_string fb \<rparr>"
proof -
  let ?m = "utf8_bytes MAGIC"
  let ?buf = "?m @ le_bytes 2 ver @ le_bytes 2 flgs @ le_bytes 8 osize @
            le_bytes 2 cidx @ le_bytes 2 tot @ le_bytes 2 (length fb) @ fb @ pad"
  have lm: "length ?m = 4" by (simp add: utf8_bytes_def MAGIC_def)
  have len: "length ?buf = 22 + (length fb + length pad)" by (simp add: length_le_bytes lm)
  have s0: "subarray ?buf 0 4 = ?m"
    using subarray_mid [of "[]" 0 4 ?m] lm by simp
  have s1: "subarray ?buf 4 (4 + 2) = le_bytes 2 ver"
    using subarray_mid [of ?m 4 6 "le_bytes 2 ver"] lm by (simp add: length_le_bytes)
  have s2: "subarray ?buf 6 (6 + 2) = le_bytes 2 flgs"
    using subarray_mid [of "?m @ le_bytes 2 ver" 6 8 "le_bytes 2 flgs"] lm
    by (simp add: length_le_bytes)
  have s3: "subarray ?buf 8 (8 + 8) = le_bytes 8 osize"
    using subarray_mid [of "?m @ le_bytes 2 ver @ le_bytes 2 flgs" 8 16 "le_bytes 8 osize"] lm
    by (simp add: length_le_bytes)
  have s4: "subarray ?buf 16 (16 + 2) = le_bytes 2 cidx"
    using subarray_mid [of "?m @ le_bytes 2 ver @ le_bytes 2 flgs @ le_bytes 8 osize" 16 18
        "le_bytes 2 cidx"] lm
    by (simp add: length_le_bytes)
  have s5: "subarray ?buf 18 (18 + 2) = le_bytes 2 tot"
    using subarray_mid [of "?m @ le_bytes 2 ver @ le_bytes 2 flgs @ le_bytes 8 osize @ le_bytes 2 cidx"
        18 20 "le_bytes 2 tot"] lm
    by (simp add: length_le_bytes)
  have s6: "subarray ?buf 20 (20 + 2) = le_bytes 2 (length fb)"
    using subarray_mid [of "?m @ le_bytes 2 ver @ le_bytes 2 flgs @ le_bytes 8 osize @ le_bytes 2 cidx @ le_bytes 2 tot"
        20 22 "le_bytes 2 (length fb)"] lm
    by (simp add: length_le_bytes)
  have s7: "subarray ?buf 22 (22 + length fb) = fb"
    using subarray_mid [of "?m @ le_bytes 2 ver @ le_bytes 2 flgs @ le_bytes 8 osize @ le_bytes 2 cidx @ le_bytes 2 tot @ le_bytes 2 (length fb)"
        22 "22 + length fb" fb pad] lm
    by (simp add: length_le_bytes)
  have v2: "\<And>x. x < 2 ^ 16 \<Longrightarrow> le_value (le_bytes 2 x) = x"
    using le_value_le_bytes [of _ 2] by simp
  have v8: "le_value (le_bytes 8 osize) = osize"
    using le_value_le_bytes [of osize 8] z by simp
  have lfb: "length fb < 2 ^ 16" using fb by simp
  have magic: "utf8_string ?m = MAGIC" by (rule utf8_string_bytes)
  show ?thesis
    unfolding parseHeader_def readUInt16LE_def readBigUInt64LE_def andThen_def
    by (simp only: s0 s1 s2 s3 s4 s5 s6 s7 magic len v2 [OF v] v2 [OF f] v2 [OF c] v2 [OF t]
          v2 [OF lfb] v8) (simp add: s7)
qed

text \<open>
  Claim C5. For every valid header input (a filename whose UTF-8 encoding is at most 42
  bytes, an original size that is a JavaScript number below \<open>2 ^ 64\<close>, chunk index, chunk
  total and flags below \<open>2 ^ 16\<close>), \<open>createHeader\<close> returns a 64-byte buffer from which
  \<open>parseHeader\<close> recovers the same filename, original size, chunk index and chunk total,
  the flags, and the compressed flag (bit 0 of the flags).
\<close>

theorem parseHeader_createHeader:
  assumes "length (utf8_bytes fname) \<le> 42"
    and "osize < 2 ^ 64" and "is_Number osize"
    and "cidx < 2 ^ 16" and "tot < 2 ^ 16" and "flgs < 2 ^ 16"
  shows "\<exists>h. createHeader fname osize cidx tot flgs = Inr h \<and> length h = HEADER_SIZE \<and>
             parseHeader h = Inr \<lparr> h_version = 1, h_flags = flgs, h_compressed = (flgs mod 2 = 1),
                 h_originalSize = osize, h_chunkIndex = cidx, h_totalChunks = tot,
                 h_filename = fname \<rparr>"
proof -
  have lay: "createHeader fname osize cidx tot flgs = Inr (frame_header fname osize cidx tot flgs)"
    using assms by (intro createHeader_layout) simp_all
  have fb: "take 42 (utf8_bytes fname) = utf8_bytes fname" using assms(1) by simp
  have len: "length (frame_header fname osize cidx tot flgs) = HEADER_SIZE"
    using assms(1)
    by (simp add: frame_header_def HEADER_SIZE_def length_le_bytes length_utf8_bytes utf8_bytes_def MAGIC_def)
  have "parseHeader (frame_header fname osize cidx tot flgs)
         = Inr \<lparr> h_version = 1, h_flags = flgs, h_compressed = (flgs mod 2 = 1),
                 h_originalSize = to_Number osize, h_chunkIndex = cidx, h_totalChunks = tot,
                 h_filename = utf8_string (utf8_bytes fname) \<rparr>"
    unfolding frame_header_def fb
    using assms by (intro parseHeader_layout) (simp_all add: length_utf8_bytes)
  then show ?thesis
    using lay len assms(3) by (simp add: utf8_string_bytes to_Number_exact)
qed


theorem parseHeader_createHeader_witness:
  "length (utf8_bytes ''a.txt'') \<le> 42 \<and> is_Number 120 \<and>
   (\<exists>h. createHeader ''a.txt'' 120 0 1 1 = Inr h \<and> length h = HEADER_SIZE \<and>
        parseHeader h = Inr \<lparr> h_version = 1, h_flags = 1, h_compressed = True,
            h_originalSize = 120, h_chunkIndex = 0, h_totalChunks = 1, h_filename = ''a.txt'' \<rparr>)"
proof -
  have n: "is_Number 120"
    unfolding is_Number_def by (rule exI [of _ 120], rule exI [of _ 0]) simp
  have l: "length (utf8_bytes ''a.txt'') \<le> 42" by (simp add: utf8_bytes_def)
  show ?thesis
    using parseHeader_createHeader [OF l _ n, of 0 1 1] n l by simp
qed

lemma parseHeader_cases:
  "parseHeader buf =
     (if \<not> starts_with_magic buf then Inl BadMagic
      else if length buf < 22 then Inl RangeError
      else Inr \<lparr> h_version = le_value (subarray buf 4 6), h_flags = le_value (subarray buf 6 8),
                 h_compressed = (le_value (subarray buf 6 8) mod 2 = 1),
                 h_originalSize = to_Number (le_value (subarray buf 8 16)),
                 h_chunkIndex = le_value (subarray buf 16 18),
                 h_totalChunks = le_value (subarray buf 18 20),
                 h_filename = utf8_string (subarray buf 22 (22 + le_value (subarray buf 20 22))) \<rparr>)"
  by (simp add: parseHeader_def starts_with_magic_def readUInt16LE_def readBigUInt64LE_def andThen_def)

lemma exponent_small: "n < 2 ^ 53 \<Longrightarrow> exponent n = 0"
  by (simp add: exponent.simps)

lemma to_Number_0: "to_Number 0 = 0"
  by (simp add: to_Number_def exponent_small)

text \<open>
  Claim C6, as the code has it. \<open>parseHeader\<close> fails with the bad-magic error exactly when
  the buffer does not start with the magic token; a buffer that starts with the token
  fails, with the range error of the buffer read, exactly when it is shorter than the 22
  bytes of the fixed fields; every other buffer parses, whatever its version field and
  whether or not the 64 bytes of the header are all there.
\<close>

theorem parseHeader_outcome:
  "parseHeader buf =
     (if \<not> starts_with_magic buf then Inl BadMagic
      else if length buf < 22 then Inl RangeError
      else Inr \<lparr> h_version = le_value (subarray buf 4 6), h_flags = le_value (subarray buf 6 8),
                 h_compressed = (le_value (subarray buf 6 8) mod 2 = 1),
                 h_originalSize = to_Number (le_value (subarray buf 8 16)),
                 h_chunkIndex = le_value (subarray buf 16 18),
                 h_totalChunks = le_value (subarray buf 18 20),
                 h_filename = utf8_string (subarray buf 22 (22 + le_value (subarray buf 20 22))) \<rparr>)"
  by (rule parseHeader_cases)

text \<open>
  Claim C6 as stated fails: a 64-byte header that declares version 2 parses, and so does
  a buffer of 22 bytes, shorter than the header.
\<close>

theorem parseHeader_version_counterexample:
  "length (utf8_bytes ''WAS1'' @ [2, 0] @ replicate 58 0) = 64 \<and>
   parseHeader (utf8_bytes ''WAS1'' @ [2, 0] @ replicate 58 0)
     = Inr \<lparr> h_version = 2, h_flags = 0, h_compressed = False, h_originalSize = 0, h_chunkIndex = 0,
             h_totalChunks = 0, h_filename = [] \<rparr> \<and>
   length (utf8_bytes ''WAS1'' @ [1, 0] @ replicate 16 0) = 22 \<and>
   parseHeader (utf8_bytes ''WAS1'' @ [1, 0] @ replicate 16 0)
     = Inr \<lparr> h_version = 1, h_flags = 0, h_compressed = False, h_originalSize = 0, h_chunkIndex = 0,
             h_totalChunks = 0, h_filename = [] \<rparr>"
proof -
  let ?a = "utf8_bytes ''WAS1'' @ [2, 0] @ replicate 58 0"
  let ?b = "utf8_bytes ''WAS1'' @ [1, 0] @ replicate 16 0"
  have a: "starts_with_magic ?a" "length ?a = 64"
    "le_value (subarray ?a 4 6) = 2" "le_value (subarray ?a 6 8) = 0"
    "le_value (subarray ?a 8 16) = 0" "le_value (subarray ?a 16 18) = 0"
    "le_value (subarray ?a 18 20) = 0" "le_value (subarray ?a 20 22) = 0"
    "utf8_string (subarray ?a 22 22) = []"
    by code_simp+
  have b: "starts_with_magic ?b" "length ?b = 22"
    "le_value (subarray ?b 4 6) = 1" "le_value (subarray ?b 6 8) = 0"
    "le_value (subarray ?b 8 16) = 0" "le_value (subarray ?b 16 18) = 0"
    "le_value (subarray ?b 18 20) = 0" "le_value (subarray ?b 20 22) = 0"
    "utf8_string (subarray ?b 22 22) = []"
    by code_simp+
  show ?thesis
    by (simp only: parseHeader_cases [of ?a] parseHeader_cases [of ?b] a b to_Number_0)
      (simp add: subarray_def utf8_string_def)
qed

theorem parseHeader_outcome_witness:
  "parseHeader (utf8_bytes ''WAS'') = Inl BadMagic \<and>
   parseHeader (utf8_bytes ''WAS1'' @ replicate 17 0) = Inl RangeError \<and>
   (\<exists>h. parseHeader (utf8_bytes ''WAS1'' @ [7, 0] @ replicate 16 0) = Inr h \<and> h_version h = 7)"
proof -
  let ?a = "utf8_bytes ''WAS''"
  let ?b = "utf8_bytes ''WAS1'' @ replicate 17 0"
  let ?c = "utf8_bytes ''WAS1'' @ [7, 0] @ replicate 16 0"
  have a: "\<not> starts_with_magic ?a" by code_simp
  have b: "starts_with_magic ?b" "length ?b = 21" by code_simp+
  have c: "starts_with_magic ?c" "length ?c = 22" "le_value (subarray ?c 4 6) = 7" by code_simp+
  show ?thesis
    by (simp only: parseHeader_outcome [of ?a] parseHeader_outcome [of ?b]
          parseHeader_outcome [of ?c] a b c) simp
qed

section \<open>Properties of the cipher\<close>

lemma encrypt_layout:
  "encrypt ext password salt iv data =
     salt @ iv @ fst (gcm_encrypt ext (pbkdf2Sync ext password salt) iv data)
       @ snd (gcm_encrypt ext (pbkdf2Sync ext password salt) iv data)"
  by (simp add: encrypt_def deriveKey_def Let_def split: prod.splits)

lemma decrypt_layout:
  assumes "length salt = SALT_LENGTH" and "length iv = IV_LENGTH" and "length tag = TAG_LENGTH"
  shows "decrypt ext password (salt @ iv @ c @ tag) =
           (case gcm_decrypt ext (pbkdf2Sync ext password salt) iv c tag of
              None \<Rightarrow> Inl AuthenticationError | Some plain \<Rightarrow> Inr plain)"
  using assms
  by (simp add: decrypt_def deriveKey_def subarray_def SALT_LENGTH_def IV_LENGTH_def TAG_LENGTH_def Let_def)

lemma decrypt_of_encrypt:
  assumes "cipher_contract ext" and "length salt = SALT_LENGTH" and "length iv = IV_LENGTH"
  shows "decrypt ext password (encrypt ext password salt iv plain) = Inr plain"
proof -
  let ?key = "pbkdf2Sync ext password salt"
  let ?c = "fst (gcm_encrypt ext ?key iv plain)" and ?t = "snd (gcm_encrypt ext ?key iv plain)"
  have t: "length ?t = TAG_LENGTH" and ok: "gcm_decrypt ext ?key iv ?c ?t = Some plain"
    using assms(1) by (simp_all add: cipher_contract_def)
  show ?thesis
    by (simp add: encrypt_layout decrypt_layout [OF assms(2,3) t] ok)
qed

lemma decrypt_other_password:
  assumes "cipher_contract ext" and "length salt = SALT_LENGTH" and "length iv = IV_LENGTH"
  shows "decrypt ext password' (encrypt ext password salt iv plain)
           = (case gcm_decrypt ext (deriveKey ext password' salt) iv
                     (fst (gcm_encrypt ext (deriveKey ext password salt) iv plain))
                     (snd (gcm_encrypt ext (deriveKey ext password salt) iv plain)) of
                None \<Rightarrow> Inl AuthenticationError | Some p \<Rightarrow> Inr p)"
proof -
  let ?key = "pbkdf2Sync ext password salt"
  have t: "length (snd (gcm_encrypt ext ?key iv plain)) = TAG_LENGTH"
    using assms(1) by (simp add: cipher_contract_def)
  show ?thesis
    by (simp add: encrypt_layout decrypt_layout [OF assms(2,3) t] deriveKey_def)
qed

lemma hmac_key_zero:
  assumes "length k < SHA512_BLOCK"
  shows "hmac_key ext (k @ [0]) = hmac_key ext k"
proof -
  obtain m where m: "SHA512_BLOCK - length k = Suc m"
    using assms by (cases "SHA512_BLOCK - length k") simp_all
  then have "SHA512_BLOCK - length (k @ [0]) = m" by simp
  then show ?thesis
    using assms m by (simp add: hmac_key_def Let_def)
qed

lemma deriveKey_same_block:
  "hmac_key ext (utf8_bytes password') = hmac_key ext (utf8_bytes password) \<Longrightarrow>
   deriveKey ext password' salt = deriveKey ext password salt"
  by (simp add: deriveKey_def pbkdf2Sync_def)

lemma decrypt_same_block:
  assumes "cipher_contract ext" and "length salt = SALT_LENGTH" and "length iv = IV_LENGTH"
    and "hmac_key ext (utf8_bytes password') = hmac_key ext (utf8_bytes password)"
  shows "decrypt ext password' (encrypt ext password salt iv plain) = Inr plain"
proof -
  have "gcm_decrypt ext (deriveKey ext password salt) iv
          (fst (gcm_encrypt ext (deriveKey ext password salt) iv plain))
          (snd (gcm_encrypt ext (deriveKey ext password salt) iv plain)) = Some plain"
    using assms(1) by (simp add: cipher_contract_def)
  then show ?thesis
    by (simp add: decrypt_other_password [OF assms(1,2,3)] deriveKey_same_block [OF assms(4)])
qed

lemma decrypt_password_zero:
  assumes "cipher_contract ext" and "length salt = SALT_LENGTH" and "length iv = IV_LENGTH"
    and "length (utf8_bytes password) < SHA512_BLOCK"
  shows "decrypt ext (password @ [CHR 0x00]) (encrypt ext password salt iv plain) = Inr plain"
proof -
  have "utf8_bytes (password @ [CHR 0x00]) = utf8_bytes password @ [0]"
    by (simp add: utf8_bytes_def)
  then have "hmac_key ext (utf8_bytes (password @ [CHR 0x00])) = hmac_key ext (utf8_bytes password)"
    using hmac_key_zero [OF assms(4)] by simp
  then show ?thesis by (rule decrypt_same_block [OF assms(1,2,3)])
qed

lemma strip_zeros:
  "dropWhile (\<lambda>b. b = 0) (replicate n (0 :: byte) @ ys) = dropWhile (\<lambda>b. b = 0) ys"
  by (induction n) simp_all

lemma example_key:
  "length (utf8_bytes password) \<le> SHA512_BLOCK \<Longrightarrow>
   pbkdf2Sync example_externals password salt
     = rev (dropWhile (\<lambda>b. b = 0) (rev (utf8_bytes password)))"
  by (simp add: pbkdf2Sync_def hmac_key_def example_externals_def strip_zeros Let_def)

lemma example_key_pw: "pbkdf2Sync example_externals ''pw'' salt = utf8_bytes ''pw''"
  by (simp add: example_key SHA512_BLOCK_def utf8_bytes_def)

lemma example_cipher_contract: "cipher_contract example_externals"
  by (simp add: cipher_contract_def example_externals_def TAG_LENGTH_def)

text \<open>
  Claim C2, as the code has it. For every payload and password, and every salt of 32
  bytes and nonce of 12 bytes that \<open>randomBytes\<close> draws, \<open>decrypt\<close> recovers the payload from
  what \<open>encrypt\<close> returned when it is given the same password. Given another password it
  derives a key from that password and the salt it reads back, and its outcome is the
  one of the library's tag verification under that key on the ciphertext and tag that
  \<open>encrypt\<close> wrote: the authentication error, and no plaintext, when the verification
  fails. It does not fail for every other password: a password whose bytes HMAC brings
  to the same 128-byte block derives the same key and decrypts to the payload, and such
  is the password followed by a NUL character when it is shorter than 128 bytes. The
  library's cipher is taken under its round-trip contract.
\<close>

theorem decrypt_encrypt:
  assumes "cipher_contract ext" and "length salt = SALT_LENGTH" and "length iv = IV_LENGTH"
  shows "decrypt ext password (encrypt ext password salt iv plain) = Inr plain \<and>
         decrypt ext password' (encrypt ext password salt iv plain)
           = (case gcm_decrypt ext (deriveKey ext password' salt) iv
                     (fst (gcm_encrypt ext (deriveKey ext password salt) iv plain))
                     (snd (gcm_encrypt ext (deriveKey ext password salt) iv plain)) of
                None \<Rightarrow> Inl AuthenticationError | Some p \<Rightarrow> Inr p) \<and>
         (hmac_key ext (utf8_bytes password') = hmac_key ext (utf8_bytes password) \<longrightarrow>
            decrypt ext password' (encrypt ext password salt iv plain) = Inr plain) \<and>
         (length (utf8_bytes password) < SHA512_BLOCK \<longrightarrow>
            decrypt ext (password @ [CHR 0x00]) (encrypt ext password salt iv plain) = Inr plain)"
  using decrypt_of_encrypt [OF assms] decrypt_other_password [OF assms]
    decrypt_same_block [OF assms] decrypt_password_zero [OF assms]
  by blast

text \<open>
  Claim C2 as stated fails in its second part: the password \<open>pw\<close> followed by a NUL
  character is another password than \<open>pw\<close>, and it decrypts what was encrypted under \<open>pw\<close>.
\<close>

theorem decrypt_other_password_counterexample:
  "''pw'' @ [CHR 0x00] \<noteq> ''pw'' \<and>
   decrypt example_externals (''pw'' @ [CHR 0x00])
     (encrypt example_externals ''pw'' (replicate 32 7) (replicate 12 9) (utf8_bytes ''hi''))
     = Inr (utf8_bytes ''hi'')"
proof -
  have s: "length (replicate 32 (7 :: byte)) = SALT_LENGTH" by (simp add: SALT_LENGTH_def)
  have i: "length (replicate 12 (9 :: byte)) = IV_LENGTH" by (simp add: IV_LENGTH_def)
  have l: "length (utf8_bytes ''pw'') < SHA512_BLOCK"
    by (simp add: utf8_bytes_def SHA512_BLOCK_def)
  show ?thesis
    using decrypt_password_zero [OF example_cipher_contract s i l] by simp
qed

theorem decrypt_encrypt_witness:
  "cipher_contract example_externals \<and>
   decrypt example_externals ''pw''
     (encrypt example_externals ''pw'' (replicate 32 7) (replicate 12 9) (utf8_bytes ''hi''))
     = Inr (utf8_bytes ''hi'') \<and>
   decrypt example_externals ''pW''
     (encrypt example_externals ''pw'' (replicate 32 7) (replicate 12 9) (utf8_bytes ''hi''))
     = Inl AuthenticationError \<and>
   hmac_key example_externals (utf8_bytes (''pw'' @ [CHR 0x00]))
     = hmac_key example_externals (utf8_bytes ''pw'') \<and>
   decrypt example_externals (''pw'' @ [CHR 0x00])
     (encrypt example_externals ''pw'' (replicate 32 7) (replicate 12 9) (utf8_bytes ''hi''))
     = Inr (utf8_bytes ''hi'')"
proof -
  have s: "length (replicate 32 (7 :: byte)) = SALT_LENGTH" by (simp add: SALT_LENGTH_def)
  have i: "length (replicate 12 (9 :: byte)) = IV_LENGTH" by (simp add: IV_LENGTH_def)
  have l: "length (utf8_bytes ''pw'') < SHA512_BLOCK"
    by (simp add: utf8_bytes_def SHA512_BLOCK_def)
  have k: "deriveKey example_externals ''pw'' (replicate 32 7) = [112, 119]"
    by (simp add: deriveKey_def example_key SHA512_BLOCK_def utf8_bytes_def)
  have k': "deriveKey example_externals ''pW'' (replicate 32 7) = [112, 87]"
    by (simp add: deriveKey_def example_key SHA512_BLOCK_def utf8_bytes_def)
  have rejected: "gcm_decrypt example_externals (deriveKey example_externals ''pW'' (replicate 32 7))
        (replicate 12 9)
        (fst (gcm_encrypt example_externals (deriveKey example_externals ''pw'' (replicate 32 7))
                (replicate 12 9) (utf8_bytes ''hi'')))
        (snd (gcm_encrypt example_externals (deriveKey example_externals ''pw'' (replicate 32 7))
                (replicate 12 9) (utf8_bytes ''hi''))) = None"
    unfolding k k' by (simp add: example_externals_def)
  have b: "hmac_key example_externals (utf8_bytes (''pw'' @ [CHR 0x00]))
     = hmac_key example_externals (utf8_bytes ''pw'')"
    using hmac_key_zero [OF l, of example_externals] by (simp add: utf8_bytes_def)
  note th = decrypt_encrypt [OF example_cipher_contract s i,
      where password = "''pw''" and plain = "utf8_bytes ''hi''"]
  have one: "decrypt example_externals ''pw''
     (encrypt example_externals ''pw'' (replicate 32 7) (replicate 12 9) (utf8_bytes ''hi''))
     = Inr (utf8_bytes ''hi'')"
    using th by (rule conjunct1)
  have two: "decrypt example_externals ''pW''
     (encrypt example_externals ''pw'' (replicate 32 7) (replicate 12 9) (utf8_bytes ''hi''))
     = Inl AuthenticationError"
    using th [where password' = "''pW''", THEN conjunct2, THEN conjunct1] rejected by simp
  have three: "decrypt example_externals (''pw'' @ [CHR 0x00])
     (encrypt example_externals ''pw'' (replicate 32 7) (replicate 12 9) (utf8_bytes ''hi''))
     = Inr (utf8_bytes ''hi'')"
    using th [where password' = "''pw'' @ [CHR 0x00]", THEN conjunct2, THEN conjunct2, THEN conjunct1] b
    by (rule mp)
  show ?thesis
    using example_cipher_contract one two b three by (intro conjI)
qed

section \<open>Properties of the upload pipeline\<close>

lemma thenS_Inl [simp]: "thenS (s, Inl e) f = (s, Inl e)"
  by (simp add: thenS_def)

lemma thenS_Inr [simp]: "thenS (s, Inr v) f = f s v"
  by (simp add: thenS_def)

lemma andThen_Inl [simp]: "andThen (Inl e) f = Inl e"
  by (simp add: andThen_def)

lemma andThen_Inr [simp]: "andThen (Inr v) f = f v"
  by (simp add: andThen_def)

lemma prepare_duplicate:
  "fs filePath = Some fileData \<Longrightarrow> exists db (hashData ext fileData) \<Longrightarrow>
   prepare ext fs opts salt iv filePath db = Inl DuplicateError"
  by (simp add: prepare_def Let_def)

lemma exists_iff: "exists db h \<longleftrightarrow> (\<exists>r \<in> set (files db). f_hash r = h)"
  by (simp add: exists_def list_ex_iff)

text \<open>
  Claim C3. An upload whose content digest is the hash of a File row of the store,
  whatever that row's filename and whatever name the upload asks for, ends with
  DuplicateError, and the store and the chat are as before: nothing was inserted, no
  Bot API call was made and no chunk was sent.
\<close>

theorem processFile_duplicate:
  assumes "fs filePath = Some fileData"
    and "r \<in> set (files (st_db st))" and "f_hash r = hashData ext fileData"
  shows "processFile ext fs opts salt iv filePath st = (st, Inl DuplicateError)"
proof -
  have "exists (st_db st) (hashData ext fileData)"
    using assms(2,3) by (auto simp: exists_iff)
  then show ?thesis
    using assms(1) by (simp add: processFile_def prepare_duplicate)
qed

lemma rows_of_map_token:
  "map c_chunk_index (filter (\<lambda>c. c_file_id c = fid)
      (map (\<lambda>c. if c_file_id c = f \<and> c_chunk_index c = i
                  then c \<lparr> c_file_telegram_id := Some t \<rparr> else c) xs))
   = map c_chunk_index (filter (\<lambda>c. c_file_id c = fid) xs)"
  by (induction xs) auto

lemma rows_of_setFileTelegramId:
  "map c_chunk_index (rows_of (setFileTelegramId db t f i) fid) = map c_chunk_index (rows_of db fid)"
  by (simp add: rows_of_def setFileTelegramId_def rows_of_map_token)

lemma files_setFileTelegramId [simp]: "files (setFileTelegramId db t f i) = files db"
  by (simp add: setFileTelegramId_def)

lemma addChunk_ok:
  assumes "list_ex (\<lambda>r. f_id r = fid) (files db)"
    and "i \<notin> set (map c_chunk_index (rows_of db fid))"
  shows "\<exists>db'. addChunk db fid i m sz = Inr db' \<and> files db' = files db \<and>
           map c_chunk_index (rows_of db' fid) = map c_chunk_index (rows_of db fid) @ [i]"
proof -
  have "\<not> list_ex (\<lambda>c. c_file_id c = fid \<and> c_chunk_index c = i) (chunks db)"
    using assms(2) by (auto simp: rows_of_def list_ex_iff)
  then show ?thesis
    using assms(1) by (simp add: addChunk_def rows_of_def)
qed

lemma api_call_ok:
  "calls_ok (Suc n) (tg_outcomes tg) \<Longrightarrow>
   \<exists>tg'. api_call tg = (tg', True) \<and> tg_outcomes tg' = drop 1 (tg_outcomes tg) \<and>
         tg_documents tg' = tg_documents tg \<and> tg_next_message tg' = tg_next_message tg \<and>
         tg_next_file tg' = tg_next_file tg"
  by (cases "tg_outcomes tg") (auto simp: api_call_def)

lemma calls_ok_drop: "calls_ok (Suc n) outs \<Longrightarrow> calls_ok n (drop 1 outs)"
  by (cases outs) (auto, cases n, auto)

lemma api_call_fail:
  "k < length (tg_outcomes tg) \<Longrightarrow> \<not> tg_outcomes tg ! k \<Longrightarrow> k = 0 \<Longrightarrow>
   api_call tg = (tg \<lparr> tg_outcomes := tl (tg_outcomes tg) \<rparr>, False)"
  by (cases "tg_outcomes tg") (auto simp: api_call_def)

lemma sendFile_ok:
  "calls_ok (Suc n) (tg_outcomes tg) \<Longrightarrow>
   \<exists>tg' res. sendFile tg content = (tg', Inr res) \<and> tg_outcomes tg' = drop 1 (tg_outcomes tg)"
  using api_call_ok [of n tg] by (auto simp: sendFile_def)

lemma sendFile_fail:
  "0 < length (tg_outcomes tg) \<Longrightarrow> \<not> tg_outcomes tg ! 0 \<Longrightarrow>
   \<exists>tg'. sendFile tg content = (tg', Inl TransportError)"
  using api_call_fail [of 0 tg] by (auto simp: sendFile_def)

lemma upload_chunks_ok:
  assumes "calls_ok (length cfs) (tg_outcomes (st_client st))"
    and "distinct (map cf_index cfs)"
    and "list_ex (\<lambda>r. f_id r = fid) (files (st_db st))"
    and "set (map c_chunk_index (rows_of (st_db st) fid)) \<inter> set (map cf_index cfs) = {}"
  shows "\<exists>st'. upload_chunks st fid cfs = (st', Inr ()) \<and>
           files (st_db st') = files (st_db st) \<and>
           tg_outcomes (st_client st') = drop (length cfs) (tg_outcomes (st_client st)) \<and>
           map c_chunk_index (rows_of (st_db st') fid)
             = map c_chunk_index (rows_of (st_db st) fid) @ map cf_index cfs"
  using assms
proof (induction cfs arbitrary: st)
  case Nil
  then show ?case by simp
next
  case (Cons c cs)
  have ok: "calls_ok (Suc (length cs)) (tg_outcomes (st_client st))"
    using Cons.prems(1) by simp
  obtain tg' res where send: "sendFile (st_client st) (cf_content c) = (tg', Inr res)"
    and out': "tg_outcomes tg' = drop 1 (tg_outcomes (st_client st))"
    using sendFile_ok [OF ok] by blast
  have fresh: "cf_index c \<notin> set (map c_chunk_index (rows_of (st_db st) fid))"
    using Cons.prems(4) by auto
  obtain db' where add: "addChunk (st_db st) fid (cf_index c) (sr_messageId res) (cf_size c) = Inr db'"
    and files': "files db' = files (st_db st)"
    and rows': "map c_chunk_index (rows_of db' fid)
                  = map c_chunk_index (rows_of (st_db st) fid) @ [cf_index c]"
    using addChunk_ok [OF Cons.prems(3) fresh] by blast
  let ?st = "st \<lparr> st_client := tg', st_db := setFileTelegramId db' (sr_fileId res) fid (cf_index c) \<rparr>"
  have step: "upload_chunks st fid (c # cs) = upload_chunks ?st fid cs"
    by (simp add: on_client_def send add)
  have rows2: "map c_chunk_index (rows_of (st_db ?st) fid)
                 = map c_chunk_index (rows_of (st_db st) fid) @ [cf_index c]"
    by (simp add: rows_of_setFileTelegramId rows')
  have "\<exists>st'. upload_chunks ?st fid cs = (st', Inr ()) \<and>
         files (st_db st') = files (st_db ?st) \<and>
         tg_outcomes (st_client st') = drop (length cs) (tg_outcomes (st_client ?st)) \<and>
         map c_chunk_index (rows_of (st_db st') fid)
           = map c_chunk_index (rows_of (st_db ?st) fid) @ map cf_index cs"
  proof (rule Cons.IH)
    show "calls_ok (length cs) (tg_outcomes (st_client ?st))"
      using calls_ok_drop [OF ok] out' by simp
    show "distinct (map cf_index cs)" using Cons.prems(2) by simp
    show "list_ex (\<lambda>r. f_id r = fid) (files (st_db ?st))" using Cons.prems(3) files' by simp
    show "set (map c_chunk_index (rows_of (st_db ?st) fid)) \<inter> set (map cf_index cs) = {}"
    proof -
      have "c_chunk_index ` set (rows_of (st_db ?st) fid)
              = insert (cf_index c) (c_chunk_index ` set (rows_of (st_db st) fid))"
        using arg_cong [OF rows2, of set] by simp
      then show ?thesis using Cons.prems(2,4) by auto
    qed
  qed
  then obtain st' where r: "upload_chunks ?st fid cs = (st', Inr ())"
    and f: "files (st_db st') = files (st_db ?st)"
    and o: "tg_outcomes (st_client st') = drop (length cs) (tg_outcomes (st_client ?st))"
    and m: "map c_chunk_index (rows_of (st_db st') fid)
             = map c_chunk_index (rows_of (st_db ?st) fid) @ map cf_index cs"
    by blast
  have "upload_chunks st fid (c # cs) = (st', Inr ())"
    by (simp only: step r)
  moreover have "files (st_db st') = files (st_db st)"
    using f files' by simp
  moreover have "tg_outcomes (st_client st') = drop (length (c # cs)) (tg_outcomes (st_client st))"
    using o out' by simp
  moreover have "map c_chunk_index (rows_of (st_db st') fid)
             = map c_chunk_index (rows_of (st_db st) fid) @ map cf_index (c # cs)"
    by (simp only: m rows2) simp
  ultimately show ?case by blast
qed

lemma upload_chunks_append:
  "upload_chunks st fid (xs @ ys)
     = thenS (upload_chunks st fid xs) (\<lambda>st' u. upload_chunks st' fid ys)"
proof (induction xs arbitrary: st)
  case Nil
  show ?case by simp
next
  case (Cons x xs)
  show ?case
    by (cases "on_client st (\<lambda>tg. sendFile tg (cf_content x))")
       (auto simp: Cons.IH thenS_def split: sum.splits)
qed

lemma upload_chunks_first_fails:
  "0 < length (tg_outcomes (st_client st)) \<Longrightarrow> \<not> tg_outcomes (st_client st) ! 0 \<Longrightarrow>
   \<exists>st'. upload_chunks st fid (c # cs) = (st', Inl TransportError) \<and> st_db st' = st_db st"
  using sendFile_fail [of "st_client st" "cf_content c"]
  by (auto simp: on_client_def)

lemma upload_chunks_progress:
  assumes ok: "calls_ok k (tg_outcomes (st_client st))"
    and k: "k \<le> length cfs"
    and fail: "k < length cfs \<longrightarrow> k < length (tg_outcomes (st_client st)) \<and> \<not> tg_outcomes (st_client st) ! k"
    and d: "distinct (map cf_index cfs)"
    and ex: "list_ex (\<lambda>r. f_id r = fid) (files (st_db st))"
    and fresh: "set (map c_chunk_index (rows_of (st_db st) fid)) \<inter> set (map cf_index cfs) = {}"
  shows "\<exists>st'. upload_chunks st fid cfs
                 = (st', if k < length cfs then Inl TransportError else Inr ()) \<and>
           files (st_db st') = files (st_db st) \<and>
           map c_chunk_index (rows_of (st_db st') fid)
             = map c_chunk_index (rows_of (st_db st) fid) @ map cf_index (take k cfs)"
proof -
  let ?xs = "take k cfs" and ?ys = "drop k cfs"
  have len: "length ?xs = k" using k by simp
  have "\<exists>st'. upload_chunks st fid ?xs = (st', Inr ()) \<and>
           files (st_db st') = files (st_db st) \<and>
           tg_outcomes (st_client st') = drop (length ?xs) (tg_outcomes (st_client st)) \<and>
           map c_chunk_index (rows_of (st_db st') fid)
             = map c_chunk_index (rows_of (st_db st) fid) @ map cf_index ?xs"
  proof (rule upload_chunks_ok)
    show "calls_ok (length ?xs) (tg_outcomes (st_client st))" using ok len by simp
    show "distinct (map cf_index ?xs)" using d by (simp add: distinct_take take_map [symmetric])
    show "list_ex (\<lambda>r. f_id r = fid) (files (st_db st))" by (rule ex)
    show "set (map c_chunk_index (rows_of (st_db st) fid)) \<inter> set (map cf_index ?xs) = {}"
      using fresh set_take_subset [of k cfs] by auto
  qed
  then obtain st1 where r1: "upload_chunks st fid ?xs = (st1, Inr ())"
    and f1: "files (st_db st1) = files (st_db st)"
    and o1: "tg_outcomes (st_client st1) = drop k (tg_outcomes (st_client st))"
    and m1: "map c_chunk_index (rows_of (st_db st1) fid)
             = map c_chunk_index (rows_of (st_db st) fid) @ map cf_index ?xs"
    using len by auto
  have split: "upload_chunks st fid cfs = upload_chunks st1 fid ?ys"
    using upload_chunks_append [of st fid ?xs ?ys] r1 by simp
  show ?thesis
  proof (cases "k < length cfs")
    case False
    then have "?ys = []" by simp
    then show ?thesis using split False f1 m1 by simp
  next
    case True
    then obtain c cs where ys: "?ys = c # cs" by (cases ?ys) auto
    have "0 < length (tg_outcomes (st_client st1))" "\<not> tg_outcomes (st_client st1) ! 0"
      using fail True o1 by auto
    then obtain st' where "upload_chunks st1 fid (c # cs) = (st', Inl TransportError)"
      and "st_db st' = st_db st1"
      using upload_chunks_first_fails by blast
    then show ?thesis using split ys True f1 m1 by simp
  qed
qed

lemma frame_chunks_index:
  "frame_chunks fname osize flgs chs = Inr cfs \<Longrightarrow> map cf_index cfs = map ch_index chs"
proof (induction chs arbitrary: cfs)
  case Nil
  then show ?case by simp
next
  case (Cons c cs)
  then show ?case
    by (auto simp: andThen_def split: sum.splits)
qed

lemma split_chunks_index:
  "map ch_index (split_chunks n data) = [0..<length (split_chunks n data)]"
  by (simp add: split_chunks_def Let_def comp_def map_idI)

lemma prepare_result:
  assumes "prepare ext fs opts salt iv filePath db = Inr (fd, cfs)"
  shows "map cf_index cfs = [0..<length cfs] \<and> fd_chunks fd = length cfs \<and>
         \<not> exists db (fd_hash fd)"
proof -
  obtain fileData where rd: "fs filePath = Some fileData"
    using assms by (cases "fs filePath") (auto simp: prepare_def)
  have nd: "\<not> exists db (hashData ext fileData)"
    using assms rd by (auto simp: prepare_def Let_def split: if_splits)
  define fname where "fname = (case opt_customName opts of
                     None \<Rightarrow> basename filePath
                   | Some n \<Rightarrow> if n = [] then basename filePath else n)"
  obtain cd cflag where c: "compress ext fileData fname = (cd, cflag)"
    by (cases "compress ext fileData fname")
  define chs where "chs = split_chunks TELEGRAM_CHUNK_SIZE (encrypt ext (opt_password opts) salt iv cd)"
  have fr: "frame_chunks fname (length fileData) (if cflag then 1 else 0) chs = Inr cfs"
    and fd: "fd_chunks fd = length chs" "fd_hash fd = hashData ext fileData"
    using assms rd nd c
    by (auto simp: prepare_def Let_def fname_def chs_def andThen_def split: sum.splits)
  have idx: "map cf_index cfs = map ch_index chs"
    using fr by (rule frame_chunks_index)
  have "length (map cf_index cfs) = length (map ch_index chs)"
    by (simp only: idx)
  then have "length cfs = length chs" by simp
  then show ?thesis
    using idx fd nd by (simp add: chs_def split_chunks_index)
qed

lemma addFile_ok:
  "\<not> exists db (fd_hash fd) \<Longrightarrow>
   addFile db fd = Inr (db \<lparr> files := files db @ [file_row_of (Suc (files_seq db)) fd],
                             files_seq := Suc (files_seq db) \<rparr>, Suc (files_seq db))"
  by (simp add: addFile_def exists_def file_row_of_def Let_def)

lemma initialize_ok:
  "calls_ok (Suc n) (tg_outcomes (st_client st)) \<Longrightarrow>
   \<exists>st1. on_client st initialize = (st1, Inr ()) \<and> st_db st1 = st_db st \<and>
     tg_outcomes (st_client st1) = drop 1 (tg_outcomes (st_client st))"
  using api_call_ok [of n "st_client st"]
  by (auto simp: on_client_def initialize_def)

lemma db_ok_fresh: "db_ok db \<Longrightarrow> rows_of db (Suc (files_seq db)) = []"
  by (auto simp: db_ok_def rows_of_def list_all_iff filter_empty_conv)

lemma calls_ok_nth_drop:
  "Suc k < length outs \<Longrightarrow> k < length (drop 1 outs) \<and> drop 1 outs ! k = outs ! Suc k"
  by (cases outs) auto

lemma processFile_progress:
  assumes p: "prepare ext fs opts salt iv filePath (st_db st) = Inr (fd, cfs)"
    and ok: "db_ok (st_db st)"
    and calls: "calls_ok (Suc k) (tg_outcomes (st_client st))"
    and k: "k \<le> length cfs"
    and fail: "k < length cfs \<longrightarrow>
                 Suc k < length (tg_outcomes (st_client st)) \<and> \<not> tg_outcomes (st_client st) ! Suc k"
  shows "\<exists>st'. processFile ext fs opts salt iv filePath st
                 = (st', if k < length cfs then Inl TransportError else Inr fd) \<and>
           files (st_db st') = files (st_db st) @ [file_row_of (Suc (files_seq (st_db st))) fd] \<and>
           map c_chunk_index (rows_of (st_db st') (Suc (files_seq (st_db st)))) = [0..<k]"
proof -
  let ?fid = "Suc (files_seq (st_db st))"
  have pr: "map cf_index cfs = [0..<length cfs]" "\<not> exists (st_db st) (fd_hash fd)"
    using prepare_result [OF p] by simp_all
  obtain st1 where i: "on_client st initialize = (st1, Inr ())" and db1: "st_db st1 = st_db st"
    and o1: "tg_outcomes (st_client st1) = drop 1 (tg_outcomes (st_client st))"
    using initialize_ok [OF calls] by blast
  let ?db = "st_db st \<lparr> files := files (st_db st) @ [file_row_of ?fid fd], files_seq := ?fid \<rparr>"
  let ?st2 = "st1 \<lparr> st_db := ?db \<rparr>"
  have add: "addFile (st_db st1) fd = Inr (?db, ?fid)"
    using addFile_ok [OF pr(2)] db1 by simp
  have rows0: "rows_of ?db ?fid = []"
    using db_ok_fresh [OF ok] by (simp add: rows_of_def)
  have "\<exists>st'. upload_chunks ?st2 ?fid cfs
                 = (st', if k < length cfs then Inl TransportError else Inr ()) \<and>
           files (st_db st') = files (st_db ?st2) \<and>
           map c_chunk_index (rows_of (st_db st') ?fid)
             = map c_chunk_index (rows_of (st_db ?st2) ?fid) @ map cf_index (take k cfs)"
  proof (rule upload_chunks_progress)
    show "calls_ok k (tg_outcomes (st_client ?st2))"
      using calls_ok_drop [OF calls] o1 by simp
    show "k \<le> length cfs" by (rule k)
    show "k < length cfs \<longrightarrow> k < length (tg_outcomes (st_client ?st2)) \<and>
            \<not> tg_outcomes (st_client ?st2) ! k"
      using fail o1 calls_ok_nth_drop [of k "tg_outcomes (st_client st)"] by auto
    show "distinct (map cf_index cfs)" by (simp add: pr(1))
    show "list_ex (\<lambda>r. f_id r = ?fid) (files (st_db ?st2))"
      by (simp add: file_row_of_def)
    show "set (map c_chunk_index (rows_of (st_db ?st2) ?fid)) \<inter> set (map cf_index cfs) = {}"
      using rows0 by simp
  qed
  then obtain st' where
    u: "upload_chunks ?st2 ?fid cfs = (st', if k < length cfs then Inl TransportError else Inr ())"
    and f: "files (st_db st') = files (st_db ?st2)"
    and m: "map c_chunk_index (rows_of (st_db st') ?fid)
             = map c_chunk_index (rows_of (st_db ?st2) ?fid) @ map cf_index (take k cfs)"
    by blast
  have "map cf_index (take k cfs) = [0..<k]"
    using pr(1) k by (simp add: take_map [symmetric] take_upt)
  then have m': "map c_chunk_index (rows_of (st_db st') ?fid) = [0..<k]"
    using m rows0 by simp
  have "processFile ext fs opts salt iv filePath st
          = (st', if k < length cfs then Inl TransportError else Inr fd)"
    by (simp add: processFile_def p i add u)
  then show ?thesis using f m' by auto
qed

lemma getChunks_rows_of:
  "map c_chunk_index (rows_of db fid) = [0..<k] \<Longrightarrow>
   getChunks db fid = rows_of db fid"
proof -
  assume a: "map c_chunk_index (rows_of db fid) = [0..<k]"
  have "sorted (map c_chunk_index (rows_of db fid))" by (simp add: a)
  then show ?thesis
    by (simp add: getChunks_def rows_of_def sort_key_id_if_sorted)
qed

lemma example_prepare:
  "\<exists>fd cfs. prepare example_externals example_fs example_options
        (replicate 32 0) (replicate 12 0) ''a.txt'' empty_database = Inr (fd, cfs) \<and>
      length cfs = 1 \<and> fd_chunks fd = 1"
  by (simp add: prepare_def example_externals_def empty_database_def exists_def hashData_def
      compress_def shouldSkip_def SKIP_COMPRESSION_def encrypt_def deriveKey_def
      pbkdf2Sync_def hmac_key_def SHA512_BLOCK_def strip_zeros utf8_bytes_def
      split_chunks_def TELEGRAM_CHUNK_SIZE_def length_utf8_bytes createHeader_layout Let_def
      example_fs_def example_options_def)




theorem processFile_duplicate_witness:
  "processFile example_externals example_fs example_options (replicate 32 0) (replicate 12 0) ''a.txt''
     \<lparr> st_db = empty_database \<lparr> files := [\<lparr> f_id = 1, f_filename = ''other.txt'', f_hash = ''hi'',
            f_original_size = 2, f_stored_size = 67, f_chunks = 1, f_compressed = False \<rparr>],
            files_seq := 1 \<rparr>,
        st_client = chat [] \<rparr>
   = (\<lparr> st_db = empty_database \<lparr> files := [\<lparr> f_id = 1, f_filename = ''other.txt'', f_hash = ''hi'',
            f_original_size = 2, f_stored_size = 67, f_chunks = 1, f_compressed = False \<rparr>],
            files_seq := 1 \<rparr>,
        st_client = chat [] \<rparr>, Inl DuplicateError)"
proof -
  let ?r = "\<lparr> f_id = 1, f_filename = ''other.txt'', f_hash = ''hi'',
            f_original_size = 2, f_stored_size = 67, f_chunks = 1, f_compressed = False \<rparr>"
  let ?st = "\<lparr> st_db = empty_database \<lparr> files := [?r], files_seq := 1 \<rparr>, st_client = chat [] \<rparr>"
  have a: "example_fs ''a.txt'' = Some (utf8_bytes ''hi'')" by (simp add: example_fs_def)
  have b: "?r \<in> set (files (st_db ?st))" by simp
  have c: "f_hash ?r = hashData example_externals (utf8_bytes ''hi'')"
    by (simp add: hashData_def example_externals_def utf8_string_bytes)
  show ?thesis
    using processFile_duplicate [of example_fs "''a.txt''" "utf8_bytes ''hi''" ?r ?st
        example_externals example_options "replicate 32 0" "replicate 12 0", OF a b c]
    by simp
qed

section \<open>Properties of the download\<close>

lemma length_frame_header: "length (frame_header fname osize cidx tot flgs) = 64"
  by (simp add: frame_header_def length_le_bytes length_utf8_bytes utf8_bytes_def MAGIC_def)

lemma parseHeader_frame:
  assumes "osize < 2 ^ 64" and "cidx < 2 ^ 16" and "tot < 2 ^ 16" and "flgs < 2 ^ 16"
  shows "parseHeader (frame_header fname osize cidx tot flgs @ payload)
         = Inr \<lparr> h_version = 1, h_flags = flgs, h_compressed = (flgs mod 2 = 1),
                 h_originalSize = to_Number osize, h_chunkIndex = cidx, h_totalChunks = tot,
                 h_filename = utf8_string (take 42 (utf8_bytes fname)) \<rparr>"
  unfolding frame_header_def append_assoc
  using assms by (intro parseHeader_layout) simp_all

lemma download_chunks_blob_ids:
  "map c_file_telegram_id rows' = map c_file_telegram_id rows \<Longrightarrow>
   download_chunks tg rows' = download_chunks tg rows"
proof (induction rows arbitrary: rows' tg)
  case Nil
  then show ?case by simp
next
  case (Cons r rows)
  then obtain r' rest where rows': "rows' = r' # rest"
    and r: "c_file_telegram_id r' = c_file_telegram_id r"
    and rest: "map c_file_telegram_id rest = map c_file_telegram_id rows"
    by (cases rows') auto
  have eq: "\<And>tg'. download_chunks tg' rest = download_chunks tg' rows"
    using Cons.IH [OF rest] .
  show ?case by (simp add: rows' r eq thenS_def split: prod.splits sum.splits)
qed

lemma sort_key_permutation:
  assumes "mset xs' = mset xs" and "distinct (map f xs)"
  shows "sort_key f xs' = sort_key f xs"
proof -
  have "inj_on f (set xs)" using assms(2) by (simp add: distinct_map)
  then have "sort_key f xs = sort_key f xs'"
    using assms(1) by (intro sort_key_eq_sort_key) simp_all
  then show ?thesis by simp
qed

lemma retrieveFile_blob_ids:
  assumes "map c_file_telegram_id (getChunks (st_db st') (f_id fileRecord'))
             = map c_file_telegram_id (getChunks (st_db st) (f_id fileRecord))"
    and "st_client st' = st_client st"
  shows "snd (retrieveFile ext password fileRecord' st') = snd (retrieveFile ext password fileRecord st)"
proof -
  let ?rows = "getChunks (st_db st) (f_id fileRecord)"
  let ?rows' = "getChunks (st_db st') (f_id fileRecord')"
  have e: "?rows' = [] \<longleftrightarrow> ?rows = []"
    using assms(1) by (metis map_is_Nil_conv)
  have d: "\<And>tg. download_chunks tg ?rows' = download_chunks tg ?rows"
    using assms(1) by (rule download_chunks_blob_ids)
  show ?thesis
  proof (cases "?rows = []")
    case True
    then show ?thesis using e by (simp add: retrieveFile_def)
  next
    case False
    obtain tg1 r1 where i: "initialize (st_client st) = (tg1, r1)"
      by (cases "initialize (st_client st)")
    obtain tg2 r2 where dl: "download_chunks tg1 ?rows = (tg2, r2)"
      by (cases "download_chunks tg1 ?rows")
    show ?thesis
      using False e i dl
      by (cases r1; cases r2) (simp_all add: retrieveFile_def d assms(2) on_client_def)
  qed
qed

lemma downloadFile_blob_ids:
  assumes "findByName (st_db st) fname = Some file" and "findByName (st_db st') fname = Some file'"
    and "map c_file_telegram_id (getChunks (st_db st') (f_id file'))
             = map c_file_telegram_id (getChunks (st_db st) (f_id file))"
    and "st_client st' = st_client st"
  shows "snd (downloadFile ext password fname st') = snd (downloadFile ext password fname st)"
proof -
  let ?rows = "getChunks (st_db st) (f_id file)"
  let ?rows' = "getChunks (st_db st') (f_id file')"
  have e: "?rows' = [] \<longleftrightarrow> ?rows = []"
    using assms(3) by (metis map_is_Nil_conv)
  have d: "\<And>tg. download_chunks tg ?rows' = download_chunks tg ?rows"
    using assms(3) by (rule download_chunks_blob_ids)
  show ?thesis
  proof (cases "?rows = []")
    case True
    then show ?thesis using e by (simp add: downloadFile_def assms(1,2))
  next
    case False
    obtain tg2 r2 where dl: "download_chunks (st_client st) ?rows = (tg2, r2)"
      by (cases "download_chunks (st_client st) ?rows")
    show ?thesis
      using False e dl
      by (cases r2) (simp_all add: downloadFile_def assms(1,2) d assms(4) on_client_def)
  qed
qed

lemma reassemble_permutation:
  "mset dcs' = mset dcs \<Longrightarrow> distinct (map dc_index dcs) \<Longrightarrow>
   reassemble ext password dcs' = reassemble ext password dcs"
  using sort_key_permutation [of dcs' dcs dc_index] by (simp add: reassemble_def)

lemma example_decrypt: "decrypt example_externals ''pw'' example_encrypted = Inr (utf8_bytes ''hi'')"
  unfolding example_encrypted_def
  by (rule decrypt_of_encrypt [OF example_cipher_contract])
     (simp_all add: SALT_LENGTH_def IV_LENGTH_def)

lemma drop_frame_header:
  "drop HEADER_SIZE (frame_header fname osize cidx tot flgs @ payload) = payload"
  by (simp add: HEADER_SIZE_def length_frame_header)

lemma swapped_rows:
  "getChunks (st_db swapped_store) (f_id example_row)
     = [\<lparr> c_file_id = 1, c_chunk_index = 0, c_message_id = 1,
           c_file_telegram_id = Some 1, c_size = 91 \<rparr>,
        \<lparr> c_file_id = 1, c_chunk_index = 1, c_message_id = 2,
           c_file_telegram_id = Some 2, c_size = 104 \<rparr>]"
  by (simp add: getChunks_def swapped_store_def example_row_def empty_database_def)

lemma swapped_download:
  "download_chunks (st_client swapped_store) (getChunks (st_db swapped_store) (f_id example_row))
     = (st_client swapped_store,
        Inr [\<lparr> dc_index = 1, dc_total = 2, dc_data = drop 40 example_encrypted, dc_compressed = False \<rparr>,
             \<lparr> dc_index = 0, dc_total = 2, dc_data = take 40 example_encrypted, dc_compressed = False \<rparr>])"
  unfolding swapped_rows
  by (simp add: swapped_store_def client_downloadFile_def api_call_def parseHeader_frame
      HEADER_SIZE_def length_frame_header)

lemma swapped_retrieve:
  "retrieveFile example_externals ''pw'' example_row swapped_store
     = (swapped_store, Inr (utf8_bytes ''hi''))"
proof -
  have rows: "getChunks (st_db swapped_store) (f_id example_row) \<noteq> []"
    by (simp add: swapped_rows)
  have init: "on_client swapped_store initialize = (swapped_store, Inr ())"
    by (simp add: on_client_def initialize_def api_call_def swapped_store_def)
  have dl: "on_client swapped_store (\<lambda>tg. download_chunks tg (getChunks (st_db swapped_store) (f_id example_row)))
     = (swapped_store,
        Inr [\<lparr> dc_index = 1, dc_total = 2, dc_data = drop 40 example_encrypted, dc_compressed = False \<rparr>,
             \<lparr> dc_index = 0, dc_total = 2, dc_data = take 40 example_encrypted, dc_compressed = False \<rparr>])"
    by (simp add: on_client_def swapped_download)
  have re: "reassemble example_externals ''pw''
       [\<lparr> dc_index = 1, dc_total = 2, dc_data = drop 40 example_encrypted, dc_compressed = False \<rparr>,
        \<lparr> dc_index = 0, dc_total = 2, dc_data = take 40 example_encrypted, dc_compressed = False \<rparr>]
     = Inr (utf8_bytes ''hi'')"
  proof -
    have "sort_key dc_index
       [\<lparr> dc_index = 1, dc_total = 2, dc_data = drop 40 example_encrypted, dc_compressed = False \<rparr>,
        \<lparr> dc_index = 0, dc_total = 2, dc_data = take 40 example_encrypted, dc_compressed = False \<rparr>]
      = [\<lparr> dc_index = 0, dc_total = 2, dc_data = take 40 example_encrypted, dc_compressed = False \<rparr>,
         \<lparr> dc_index = 1, dc_total = 2, dc_data = drop 40 example_encrypted, dc_compressed = False \<rparr>]"
      by simp
    then show ?thesis
      by (simp add: reassemble_def example_decrypt decompress_def)
  qed
  show ?thesis
    unfolding retrieveFile_def Let_def
    by (simp only: rows init dl re thenS_Inr if_False)
qed

lemma renumbered_rows:
  "getChunks (st_db renumbered_store) (f_id example_row)
     = [\<lparr> c_file_id = 1, c_chunk_index = 5, c_message_id = 1,
           c_file_telegram_id = Some 1, c_size = 91 \<rparr>,
        \<lparr> c_file_id = 1, c_chunk_index = 9, c_message_id = 2,
           c_file_telegram_id = Some 2, c_size = 104 \<rparr>]"
  by (simp add: getChunks_def renumbered_store_def swapped_store_def example_row_def empty_database_def)

lemma example_findByName:
  "findByName (st_db swapped_store) ''a.txt'' = Some example_row"
  "findByName (st_db renumbered_store) ''a.txt'' = Some example_row"
  by (simp_all add: findByName_def renumbered_store_def swapped_store_def example_row_def
      empty_database_def)




section \<open>Properties of the virtual filesystem\<close>

lemma getCached_store [simp]: "fs_store (fst (getCached fs now fname)) = fs_store fs"
  by (simp add: getCached_def split: option.splits)

lemma getCached_writeBuffers:
  "getCached (fs \<lparr> writeBuffers := wbs \<rparr>) now fname
     = (fst (getCached fs now fname) \<lparr> writeBuffers := wbs \<rparr>, snd (getCached fs now fname))"
  by (simp add: getCached_def split: option.splits)

lemma read_writeBuffers:
  "read ext password now (fs \<lparr> writeBuffers := wbs \<rparr>) filepath len position
     = (fst (read ext password now fs filepath len position) \<lparr> writeBuffers := wbs \<rparr>,
        snd (read ext password now fs filepath len position))"
proof -
  obtain fs1 cached where g: "getCached fs now (basename filepath) = (fs1, cached)"
    by (cases "getCached fs now (basename filepath)")
  then have g': "getCached (fs \<lparr> writeBuffers := wbs \<rparr>) now (basename filepath)
                   = (fs1 \<lparr> writeBuffers := wbs \<rparr>, cached)"
    by (simp add: getCached_writeBuffers)
  show ?thesis
  proof (cases cached)
    case (Some data)
    then show ?thesis by (simp add: read_def g g')
  next
    case None
    obtain st r where d: "downloadFile ext password (basename filepath) (fs_store fs1) = (st, r)"
      by (cases "downloadFile ext password (basename filepath) (fs_store fs1)")
    show ?thesis
      by (cases r) (simp_all add: read_def g g' None d setCache_def)
  qed
qed

lemma read_source:
  "snd (read ext password now fs filepath len position)
     = (case snd (getCached fs now (basename filepath)) of
          Some data \<Rightarrow> Inr (subarray data position (position + len))
        | None \<Rightarrow>
            (case snd (downloadFile ext password (basename filepath) (fs_store fs)) of
               Inl e \<Rightarrow> Inl EIO
             | Inr data \<Rightarrow> Inr (subarray data position (position + len))))"
proof -
  obtain fs1 cached where g: "getCached fs now (basename filepath) = (fs1, cached)"
    by (cases "getCached fs now (basename filepath)")
  have s: "fs_store fs1 = fs_store fs"
    using getCached_store [of fs now "basename filepath"] g by simp
  show ?thesis
  proof (cases cached)
    case (Some data)
    then show ?thesis by (simp add: read_def g)
  next
    case None
    obtain st r where d: "downloadFile ext password (basename filepath) (fs_store fs) = (st, r)"
      by (cases "downloadFile ext password (basename filepath) (fs_store fs)")
    show ?thesis
      by (cases r) (simp_all add: read_def g None d s)
  qed
qed


lemma basename_examples:
  "basename ''/a.txt'' = ''a.txt''" "basename ''/b.txt'' = ''b.txt''"
  by (simp_all add: basename_def)


lemma fs_write_cache: "fileCache (fst (fs_write fs filepath buf len position)) = fileCache fs"
  by (simp add: fs_write_def Let_def)

lemma unlink_cache:
  "snd (unlink fs filepath) = Inr () \<Longrightarrow> fileCache (fst (unlink fs filepath)) (basename filepath) = None"
  by (simp add: unlink_def invalidateCache_def Let_def split: option.splits)

lemma rename_cache:
  "snd (rename fs src dest) = Inr () \<Longrightarrow> basename src \<noteq> basename dest \<Longrightarrow>
   fileCache (fst (rename fs src dest)) (basename src) = None \<and>
   fileCache (fst (rename fs src dest)) (basename dest)
     = (case fileCache fs (basename src) of
          None \<Rightarrow> fileCache fs (basename dest) | Some cached \<Rightarrow> Some cached)"
  by (simp add: rename_def Let_def split: option.splits)

lemma release_cache:
  "writeBuffers fs (basename filepath) = Some wb \<Longrightarrow> wb_modified wb \<Longrightarrow>
   snd (release ext password salt iv fs filepath) = Inr () \<Longrightarrow>
   fileCache (fst (release ext password salt iv fs filepath)) (basename filepath) = None \<and>
   writeBuffers (fst (release ext password salt iv fs filepath)) (basename filepath) = None"
  by (auto simp: release_def invalidateCache_def Let_def split: prod.splits sum.splits)

text \<open>
  Claim C7, as the code has it. The cache entry of a name is deleted by an \<open>unlink\<close> of
  the name that finds a row, by a \<open>rename\<close> away from the name that finds a row (the
  entry moves to the new name), and by a \<open>release\<close> that has uploaded the modified
  buffer of the name. \<open>write\<close> leaves the read cache as it is: the entry goes only when
  the written buffer is released.
\<close>

theorem cache_invalidation:
  "fileCache (fst (fs_write fs filepath buf len position)) = fileCache fs \<and>
   (snd (unlink fs filepath) = Inr () \<longrightarrow>
      fileCache (fst (unlink fs filepath)) (basename filepath) = None) \<and>
   (snd (rename fs src dest) = Inr () \<and> basename src \<noteq> basename dest \<longrightarrow>
      fileCache (fst (rename fs src dest)) (basename src) = None \<and>
      fileCache (fst (rename fs src dest)) (basename dest)
        = (case fileCache fs (basename src) of
             None \<Rightarrow> fileCache fs (basename dest) | Some cached \<Rightarrow> Some cached)) \<and>
   (writeBuffers fs (basename filepath) = Some wb \<and> wb_modified wb \<and>
    snd (release ext password salt iv fs filepath) = Inr () \<longrightarrow>
      fileCache (fst (release ext password salt iv fs filepath)) (basename filepath) = None \<and>
      writeBuffers (fst (release ext password salt iv fs filepath)) (basename filepath) = None)"
  using fs_write_cache unlink_cache rename_cache release_cache by blast

text \<open>
  Claim C7 as stated fails for \<open>write\<close>: after new bytes are written to \<open>a.txt\<close>, the
  entry cached before the write is still there, and a read is served from it.
\<close>

theorem write_keeps_cache_counterexample:
  "fileCache (fst (fs_write cached_mount ''/a.txt'' (utf8_bytes ''new'') 3 0)) ''a.txt''
     = Some \<lparr> ce_data = utf8_bytes ''old'', ce_timestamp = 1000 \<rparr> \<and>
   snd (read example_externals ''pw'' 2000
          (fst (fs_write cached_mount ''/a.txt'' (utf8_bytes ''new'') 3 0)) ''/a.txt'' 3 0)
     = Inr (utf8_bytes ''old'')"
proof -
  let ?fs = "fst (fs_write cached_mount ''/a.txt'' (utf8_bytes ''new'') 3 0)"
  have c: "fileCache ?fs = fileCache cached_mount" by (rule fs_write_cache)
  have e: "fileCache cached_mount ''a.txt'' = Some \<lparr> ce_data = utf8_bytes ''old'', ce_timestamp = 1000 \<rparr>"
    by (simp add: cached_mount_def)
  have g: "snd (getCached ?fs 2000 ''a.txt'') = Some (utf8_bytes ''old'')"
    by (simp add: getCached_def c e CACHE_TTL_def)
  have l: "length (utf8_bytes ''old'') = 3" by (simp add: length_utf8_bytes)
  have "snd (read example_externals ''pw'' 2000 ?fs ''/a.txt'' 3 0) = Inr (utf8_bytes ''old'')"
    by (simp add: read_source basename_examples g subarray_def l)
  then show ?thesis using c e by simp
qed

lemma uploadFile_skip:
  "findByHash (st_db (delete_old_version st fname)) (hashData ext data) = Some m \<Longrightarrow>
   uploadFile ext password salt iv fname data st = (delete_old_version st fname, Inr ())"
  by (simp add: uploadFile_def Let_def)

lemma files_delete_old_version:
  "files (st_db (delete_old_version st fname))
     = (case findByName (st_db st) fname of
          None \<Rightarrow> files (st_db st)
        | Some e \<Rightarrow> filter (\<lambda>r. f_id r \<noteq> f_id e) (files (st_db st)))"
  by (simp add: delete_old_version_def delete_def split: option.splits)

lemma find_Some_ex: "list_ex P xs \<Longrightarrow> \<exists>x. find P xs = Some x"
  by (induction xs) auto

lemma findByHash_remains:
  assumes "m \<in> set (files (st_db st))" and "f_hash m = h"
    and "\<forall>e. findByName (st_db st) fname = Some e \<longrightarrow> f_id m \<noteq> f_id e"
  shows "\<exists>m'. findByHash (st_db (delete_old_version st fname)) h = Some m'"
proof -
  have "m \<in> set (files (st_db (delete_old_version st fname)))"
    using assms(1,3) by (auto simp: files_delete_old_version split: option.splits)
  then have "list_ex (\<lambda>r. f_hash r = h \<or> like (h @ ''%'') (f_hash r))
               (files (st_db (delete_old_version st fname)))"
    using assms(2) by (auto simp: list_ex_iff)
  then show ?thesis
    unfolding findByHash_def by (rule find_Some_ex)
qed

lemma release_skip:
  assumes "writeBuffers fs (basename filepath) = Some wb" and "wb_modified wb"
    and "findByHash (st_db (delete_old_version (fs_store fs) (basename filepath)))
           (hashData ext (wb_data wb)) = Some m"
  shows "release ext password salt iv fs filepath
           = (fs \<lparr> fs_store := delete_old_version (fs_store fs) (basename filepath),
                   writeBuffers := (writeBuffers fs)(basename filepath := None),
                   fileCache := (fileCache fs)(basename filepath := None) \<rparr>, Inr ())"
  using assms by (simp add: release_def uploadFile_skip invalidateCache_def Let_def)


lemma basename_n: "basename ''/n.txt'' = ''n.txt''"
  by (simp add: basename_def)

lemma example_hash_new: "hashData example_externals (utf8_bytes ''new'') = ''new''"
  by (simp add: hashData_def example_externals_def utf8_string_bytes)

lemma two_names_findByName:
  "findByName (st_db (fs_store two_names_mount)) ''n.txt''
     = Some \<lparr> f_id = 1, f_filename = ''n.txt'', f_hash = ''v1'',
               f_original_size = 2, f_stored_size = 67, f_chunks = 1, f_compressed = False \<rparr>"
  by (simp add: findByName_def two_names_mount_def empty_database_def)

lemma one_name_findByName:
  "findByName (st_db (fs_store one_name_mount)) ''n.txt''
     = Some \<lparr> f_id = 1, f_filename = ''n.txt'', f_hash = ''v1'',
               f_original_size = 2, f_stored_size = 67, f_chunks = 1, f_compressed = False \<rparr>"
  by (simp add: findByName_def one_name_mount_def two_names_mount_def empty_database_def)


lemma one_name_release:
  "release example_externals ''pw'' (replicate 32 0) (replicate 12 0) one_name_mount ''/n.txt''
     = (one_name_mount \<lparr> fs_store := delete_old_version (fs_store one_name_mount) ''n.txt'',
             writeBuffers := (writeBuffers one_name_mount)(''n.txt'' := None),
             fileCache := (fileCache one_name_mount)(''n.txt'' := None) \<rparr>, Inr ())"
proof -
  let ?m = "\<lparr> f_id = 3, f_filename = ''m.txt'', f_hash = ''new'',
                f_original_size = 3, f_stored_size = 68, f_chunks = 1, f_compressed = False \<rparr>"
  have wb: "writeBuffers one_name_mount (basename ''/n.txt'')
              = Some \<lparr> wb_data = utf8_bytes ''new'', wb_modified = True \<rparr>"
    by (simp add: basename_n one_name_mount_def two_names_mount_def)
  have "\<exists>m'. findByHash (st_db (delete_old_version (fs_store one_name_mount) (basename ''/n.txt'')))
           (hashData example_externals (utf8_bytes ''new'')) = Some m'"
  proof (rule findByHash_remains [of ?m])
    show "?m \<in> set (files (st_db (fs_store one_name_mount)))"
      by (simp add: one_name_mount_def two_names_mount_def)
    show "f_hash ?m = hashData example_externals (utf8_bytes ''new'')"
      by (simp add: example_hash_new)
    show "\<forall>e. findByName (st_db (fs_store one_name_mount)) (basename ''/n.txt'') = Some e
            \<longrightarrow> f_id ?m \<noteq> f_id e"
      by (simp add: basename_n one_name_findByName)
  qed
  then obtain m' where h: "findByHash (st_db (delete_old_version (fs_store one_name_mount) (basename ''/n.txt'')))
           (hashData example_externals (wb_data \<lparr> wb_data = utf8_bytes ''new'', wb_modified = True \<rparr>)) = Some m'"
    by auto
  have "release example_externals ''pw'' (replicate 32 0) (replicate 12 0) one_name_mount ''/n.txt''
           = (one_name_mount \<lparr> fs_store := delete_old_version (fs_store one_name_mount) (basename ''/n.txt''),
                   writeBuffers := (writeBuffers one_name_mount)(basename ''/n.txt'' := None),
                   fileCache := (fileCache one_name_mount)(basename ''/n.txt'' := None) \<rparr>, Inr ())"
    using wb _ h by (rule release_skip) simp
  then show ?thesis by (simp add: basename_n)
qed


theorem cache_invalidation_witness:
  "fileCache (fst (fs_write cached_mount ''/a.txt'' (utf8_bytes ''new'') 3 0)) = fileCache cached_mount \<and>
   fileCache (fst (unlink cached_mount ''/a.txt'')) ''a.txt'' = None \<and>
   fileCache (fst (rename cached_mount ''/a.txt'' ''/b.txt'')) ''a.txt'' = None \<and>
   fileCache (fst (rename cached_mount ''/a.txt'' ''/b.txt'')) ''b.txt''
     = Some \<lparr> ce_data = utf8_bytes ''old'', ce_timestamp = 1000 \<rparr> \<and>
   fileCache (fst (release example_externals ''pw'' (replicate 32 0) (replicate 12 0)
        one_name_mount ''/n.txt'')) ''n.txt'' = None"
proof -
  let ?wb = "\<lparr> wb_data = utf8_bytes ''new'', wb_modified = True \<rparr>"
  have fn: "findByName (st_db (fs_store cached_mount)) ''a.txt''
     = Some \<lparr> f_id = 1, f_filename = ''a.txt'', f_hash = ''old'',
                            f_original_size = 3, f_stored_size = 68, f_chunks = 1,
                            f_compressed = False \<rparr>"
    by (simp add: findByName_def cached_mount_def empty_database_def)
  have bs: "basename ''/a.txt'' = ''a.txt''" "basename ''/b.txt'' = ''b.txt''" "''a.txt'' \<noteq> ''b.txt''"
    by (simp_all add: basename_def)
  have u: "snd (unlink cached_mount ''/a.txt'') = Inr ()"
    by (simp add: unlink_def bs fn)
  have r: "snd (rename cached_mount ''/a.txt'' ''/b.txt'') = Inr ()"
    by (simp add: rename_def bs fn Let_def split: option.splits)
  have c: "fileCache cached_mount ''a.txt'' = Some \<lparr> ce_data = utf8_bytes ''old'', ce_timestamp = 1000 \<rparr>"
    by (simp add: cached_mount_def)
  have wb: "writeBuffers one_name_mount (basename ''/n.txt'') = Some ?wb"
    by (simp add: basename_n one_name_mount_def two_names_mount_def)
  have md: "wb_modified ?wb" by simp
  have rl: "snd (release example_externals ''pw'' (replicate 32 0) (replicate 12 0)
        one_name_mount ''/n.txt'') = Inr ()"
    by (simp add: one_name_release)
  note t1 = cache_invalidation [where fs = cached_mount and filepath = "''/a.txt''"
      and buf = "utf8_bytes ''new''" and len = 3 and position = 0
      and src = "''/a.txt''" and dest = "''/b.txt''"]
  note t2 = cache_invalidation [where fs = one_name_mount and filepath = "''/n.txt''"
      and wb = ?wb and ext = example_externals and password = "''pw''"
      and salt = "replicate 32 0" and iv = "replicate 12 0"]
  have a1: "fileCache (fst (fs_write cached_mount ''/a.txt'' (utf8_bytes ''new'') 3 0)) = fileCache cached_mount"
    using t1 by blast
  have a2: "fileCache (fst (unlink cached_mount ''/a.txt'')) ''a.txt'' = None"
    using t1 u bs by auto
  have a3: "fileCache (fst (rename cached_mount ''/a.txt'' ''/b.txt'')) ''a.txt'' = None \<and>
      fileCache (fst (rename cached_mount ''/a.txt'' ''/b.txt'')) ''b.txt''
        = Some \<lparr> ce_data = utf8_bytes ''old'', ce_timestamp = 1000 \<rparr>"
    using t1 r bs c by auto
  have a4: "fileCache (fst (release example_externals ''pw'' (replicate 32 0) (replicate 12 0)
        one_name_mount ''/n.txt'')) ''n.txt'' = None"
    using t2 wb md rl basename_n by auto
  show ?thesis using a1 a2 a3 a4 by (intro conjI) simp_all
qed

section \<open>Properties of the sync engine\<close>

lemma same_sync_refl [simp]: "same_sync db db"
  by (simp add: same_sync_def)

lemma same_sync_trans: "same_sync a b \<Longrightarrow> same_sync b c \<Longrightarrow> same_sync a c"
  by (simp add: same_sync_def)

lemma addChunk_same_sync: "addChunk db fid i m sz = Inr db' \<Longrightarrow> same_sync db db'"
  by (auto simp: addChunk_def same_sync_def split: if_splits)

lemma addFile_same_sync: "addFile db fd = Inr (db', i) \<Longrightarrow> same_sync db db'"
  by (auto simp: addFile_def same_sync_def Let_def split: if_splits)

lemma setFileTelegramId_same_sync [simp]: "same_sync db (setFileTelegramId db t f i)"
  by (simp add: setFileTelegramId_def same_sync_def)

lemma on_client_db [simp]: "st_db (fst (on_client st f)) = st_db st"
  by (simp add: on_client_def split: prod.splits)

lemma upload_chunks_same_sync:
  "same_sync (st_db st) (st_db (fst (upload_chunks st fid cfs)))"
proof (induction cfs arbitrary: st)
  case Nil
  show ?case by simp
next
  case (Cons c cs)
  obtain st1 r where s: "on_client st (\<lambda>tg. sendFile tg (cf_content c)) = (st1, r)"
    by (cases "on_client st (\<lambda>tg. sendFile tg (cf_content c))")
  have db1: "st_db st1 = st_db st"
    using on_client_db [of st "\<lambda>tg. sendFile tg (cf_content c)"] s by simp
  show ?case
  proof (cases r)
    case (Inl e)
    then show ?thesis by (simp add: s db1)
  next
    case (Inr result)
    show ?thesis
    proof (cases "addChunk (st_db st1) fid (cf_index c) (sr_messageId result) (cf_size c)")
      case (Inl e)
      then show ?thesis by (simp add: s Inr db1)
    next
      case (Inr db')
      have a: "same_sync (st_db st) db'"
        using addChunk_same_sync [OF Inr] db1 by simp
      let ?st2 = "st1 \<lparr> st_db := setFileTelegramId db' (sr_fileId result) fid (cf_index c) \<rparr>"
      have b: "same_sync (st_db st) (st_db ?st2)"
        using a by (simp add: same_sync_def setFileTelegramId_def)
      have "same_sync (st_db ?st2) (st_db (fst (upload_chunks ?st2 fid cs)))"
        by (rule Cons.IH)
      then have "same_sync (st_db st) (st_db (fst (upload_chunks ?st2 fid cs)))"
        using b by (rule same_sync_trans [rotated])
      then show ?thesis by (simp add: s \<open>r = Inr result\<close> Inr)
    qed
  qed
qed

lemma processFile_same_sync:
  "same_sync (st_db st) (st_db (fst (processFile ext fs opts salt iv filePath st)))"
proof (cases "prepare ext fs opts salt iv filePath (st_db st)")
  case (Inl e)
  then show ?thesis by (simp add: processFile_def)
next
  case (Inr p)
  obtain fd cfs where p: "p = (fd, cfs)" by (cases p)
  obtain st1 r where i: "on_client st initialize = (st1, r)"
    by (cases "on_client st initialize")
  have db1: "st_db st1 = st_db st"
    using on_client_db [of st initialize] i by simp
  show ?thesis
  proof (cases r)
    case (Inl e)
    then show ?thesis by (simp add: processFile_def Inr p i db1)
  next
    case u: (Inr u)
    show ?thesis
    proof (cases "addFile (st_db st1) fd")
      case (Inl e)
      then show ?thesis by (simp add: processFile_def Inr p i u db1)
    next
      case a: (Inr q)
      obtain db' fid where q: "q = (db', fid)" by (cases q)
      have s1: "same_sync (st_db st) db'"
        using addFile_same_sync [of "st_db st1" fd db' fid] a q db1 by simp
      let ?st2 = "st1 \<lparr> st_db := db' \<rparr>"
      have s2: "same_sync (st_db ?st2) (st_db (fst (upload_chunks ?st2 fid cfs)))"
        by (rule upload_chunks_same_sync)
      have s3: "same_sync (st_db st) (st_db (fst (upload_chunks ?st2 fid cfs)))"
        using s1 s2 by (simp add: same_sync_def)
      obtain st3 r3 where up: "upload_chunks ?st2 fid cfs = (st3, r3)"
        by (cases "upload_chunks ?st2 fid cfs")
      show ?thesis
        using s3 up by (cases r3) (simp_all add: processFile_def Inr p i u a q)
    qed
  qed
qed

lemma sync_skip_mtime:
  "mtime_current stateMap x \<Longrightarrow>
   sync_files ext fs password random folderId stateMap (x # rest) st counts
     = sync_files ext fs password random folderId stateMap rest st
         (counts \<lparr> skipped := skipped counts + 1 \<rparr>)"
  by (simp add: mtime_current_def)

lemma sync_read_error:
  "\<not> mtime_current stateMap x \<Longrightarrow> fs (sc_path x) = None \<Longrightarrow>
   sync_files ext fs password random folderId stateMap (x # rest) st counts = (st, Inl ReadError)"
  by (simp add: mtime_current_def)

lemma sync_same_hash:
  "\<not> mtime_current stateMap x \<Longrightarrow> fs (sc_path x) = Some content \<Longrightarrow>
   hash_unchanged stateMap x (hashData ext content) \<Longrightarrow>
   sync_files ext fs password random folderId stateMap (x # rest) st counts
     = sync_files ext fs password random folderId stateMap rest
         (persist st folderId x (hashData ext content))
         (counts \<lparr> skipped := skipped counts + 1 \<rparr>)"
  by (simp add: mtime_current_def hash_unchanged_def persist_def Let_def)

lemma sync_upload:
  "\<not> mtime_current stateMap x \<Longrightarrow> fs (sc_path x) = Some content \<Longrightarrow>
   \<not> hash_unchanged stateMap x (hashData ext content) \<Longrightarrow>
   processFile ext fs \<lparr> opt_password = password, opt_customName = Some (sc_relativePath x) \<rparr>
     (fst (random (sc_path x))) (snd (random (sc_path x))) (sc_path x) st = (st', r) \<Longrightarrow>
   sync_files ext fs password random folderId stateMap (x # rest) st counts
     = (case r of
          Inr result \<Rightarrow>
            sync_files ext fs password random folderId stateMap rest
              (persist st' folderId x (hashData ext content))
              (counts \<lparr> uploaded := uploaded counts + 1 \<rparr>)
        | Inl err \<Rightarrow>
            if err = DuplicateError
            then sync_files ext fs password random folderId stateMap rest
                   (persist st' folderId x (hashData ext content))
                   (counts \<lparr> skipped := skipped counts + 1 \<rparr>)
            else sync_files ext fs password random folderId stateMap rest st' counts)"
  by (cases r) (simp_all add: mtime_current_def hash_unchanged_def persist_def Let_def)

lemma sync_all_current:
  "list_all (mtime_current stateMap) scanned \<Longrightarrow>
   sync_files ext fs password random folderId stateMap scanned st counts
     = (st, Inr (counts \<lparr> skipped := skipped counts + length scanned \<rparr>))"
proof (induction scanned arbitrary: counts)
  case Nil
  show ?case by simp
next
  case (Cons x rest)
  then have c: "mtime_current stateMap x" and r: "list_all (mtime_current stateMap) rest"
    by simp_all
  show ?case
    by (simp only: sync_skip_mtime [OF c] Cons.IH [OF r]) simp
qed

lemma sync_counts_bound:
  "sync_files ext fs password random folderId stateMap scanned st counts = (st', Inr counts') \<Longrightarrow>
   uploaded counts' + skipped counts' \<le> uploaded counts + skipped counts + length scanned"
proof (induction scanned arbitrary: st counts)
  case Nil
  then show ?case by simp
next
  case (Cons x rest)
  note run = Cons.prems
  show ?case
  proof (cases "mtime_current stateMap x")
    case True
    from run have "sync_files ext fs password random folderId stateMap rest st
         (counts \<lparr> skipped := skipped counts + 1 \<rparr>) = (st', Inr counts')"
      by (simp only: sync_skip_mtime [OF True])
    from Cons.IH [OF this] show ?thesis by simp
  next
    case False
    show ?thesis
    proof (cases "fs (sc_path x)")
      case None
      with run False show ?thesis by (simp only: sync_read_error [where fs = fs, OF False None]) simp
    next
      case (Some content)
      show ?thesis
      proof (cases "hash_unchanged stateMap x (hashData ext content)")
        case True
        from run have "sync_files ext fs password random folderId stateMap rest
            (persist st folderId x (hashData ext content))
            (counts \<lparr> skipped := skipped counts + 1 \<rparr>) = (st', Inr counts')"
          by (simp only: sync_same_hash [where fs = fs, OF False Some True])
        from Cons.IH [OF this] show ?thesis by simp
      next
        case nh: False
        obtain stp r where p: "processFile ext fs
            \<lparr> opt_password = password, opt_customName = Some (sc_relativePath x) \<rparr>
            (fst (random (sc_path x))) (snd (random (sc_path x))) (sc_path x) st = (stp, r)"
          by (cases "processFile ext fs
            \<lparr> opt_password = password, opt_customName = Some (sc_relativePath x) \<rparr>
            (fst (random (sc_path x))) (snd (random (sc_path x))) (sc_path x) st")
        note step = sync_upload [where fs = fs and random = random and folderId = folderId and rest = rest and counts = counts, OF False Some nh p]
        show ?thesis
        proof (cases r)
          case (Inr result)
          from run have "sync_files ext fs password random folderId stateMap rest
              (persist stp folderId x (hashData ext content))
              (counts \<lparr> uploaded := uploaded counts + 1 \<rparr>) = (st', Inr counts')"
            by (simp add: step Inr del: sync_files.simps)
          from Cons.IH [OF this] show ?thesis by simp
        next
          case (Inl err)
          show ?thesis
          proof (cases "err = DuplicateError")
            case True
            from run have "sync_files ext fs password random folderId stateMap rest
                (persist stp folderId x (hashData ext content))
                (counts \<lparr> skipped := skipped counts + 1 \<rparr>) = (st', Inr counts')"
              by (simp add: step Inl True del: sync_files.simps)
            from Cons.IH [OF this] show ?thesis by simp
          next
            case ne: False
            from run have "sync_files ext fs password random folderId stateMap rest stp counts
                = (st', Inr counts')"
              by (simp add: step Inl ne del: sync_files.simps)
            from Cons.IH [OF this] show ?thesis by simp
          qed
        qed
      qed
    qed
  qed
qed

lemma persist_state:
  "sync_state (st_db (persist st folderId x h)) (folderId, p)
     = (if p = sc_relativePath x then Some \<lparr> ss_file_hash = h, ss_mtime = sc_mtime x \<rparr>
        else sync_state (st_db st) (folderId, p))"
  by (simp add: persist_def updateSyncState_def)

lemma persist_folders: "sync_folders (st_db (persist st folderId x h)) = sync_folders (st_db st)"
  by (simp add: persist_def updateSyncState_def)

lemma sync_files_covers:
  assumes "sync_files ext fs password random folderId stateMap scanned st counts = (st', Inr counts')"
    and "uploaded counts' + skipped counts' = uploaded counts + skipped counts + length scanned"
    and "distinct (map sc_relativePath scanned)"
    and "\<forall>x\<in>set scanned. stateMap (sc_relativePath x) = sync_state (st_db st) (folderId, sc_relativePath x)"
  shows "list_all (mtime_current (folderStateMap (st_db st') folderId)) scanned \<and>
         sync_folders (st_db st') = sync_folders (st_db st) \<and>
         (\<forall>p. p \<notin> sc_relativePath ` set scanned \<longrightarrow>
              sync_state (st_db st') (folderId, p) = sync_state (st_db st) (folderId, p))"
  using assms
proof (induction scanned arbitrary: st counts)
  case Nil
  then show ?case by simp
next
  case (Cons x rest)
  note run = Cons.prems(1) and full = Cons.prems(2) and dist = Cons.prems(3) and agree = Cons.prems(4)
  have fresh: "sc_relativePath x \<notin> sc_relativePath ` set rest" and dist': "distinct (map sc_relativePath rest)"
    using dist by simp_all
  have key: "list_all (mtime_current (folderStateMap (st_db st') folderId)) (x # rest) \<and>
         sync_folders (st_db st') = sync_folders (st_db st) \<and>
         (\<forall>p. p \<notin> sc_relativePath ` set (x # rest) \<longrightarrow>
              sync_state (st_db st') (folderId, p) = sync_state (st_db st) (folderId, p))"
    if run': "sync_files ext fs password random folderId stateMap rest st2 c2 = (st', Inr counts')"
      and tot: "uploaded c2 + skipped c2 = uploaded counts + skipped counts + 1"
      and fol: "sync_folders (st_db st2) = sync_folders (st_db st)"
      and frame: "\<forall>p. p \<noteq> sc_relativePath x \<longrightarrow>
                    sync_state (st_db st2) (folderId, p) = sync_state (st_db st) (folderId, p)"
      and cov: "mtime_current (folderStateMap (st_db st2) folderId) x"
    for st2 c2
  proof -
    have full': "uploaded counts' + skipped counts' = uploaded c2 + skipped c2 + length rest"
      using full tot by simp
    have agree': "\<forall>y\<in>set rest. stateMap (sc_relativePath y) = sync_state (st_db st2) (folderId, sc_relativePath y)"
    proof
      fix y assume y: "y \<in> set rest"
      then have "sc_relativePath y \<noteq> sc_relativePath x" using fresh by (metis imageI)
      then have "sync_state (st_db st2) (folderId, sc_relativePath y)
                  = sync_state (st_db st) (folderId, sc_relativePath y)"
        using frame by simp
      then show "stateMap (sc_relativePath y) = sync_state (st_db st2) (folderId, sc_relativePath y)"
        using agree y by simp
    qed
    have ih: "list_all (mtime_current (folderStateMap (st_db st') folderId)) rest \<and>
         sync_folders (st_db st') = sync_folders (st_db st2) \<and>
         (\<forall>p. p \<notin> sc_relativePath ` set rest \<longrightarrow>
              sync_state (st_db st') (folderId, p) = sync_state (st_db st2) (folderId, p))"
      using Cons.IH [OF run' full' dist' agree'] .
    have "sync_state (st_db st') (folderId, sc_relativePath x) = sync_state (st_db st2) (folderId, sc_relativePath x)"
      using ih fresh by simp
    then have "mtime_current (folderStateMap (st_db st') folderId) x"
      using cov by (simp add: mtime_current_def folderStateMap_def)
    then show ?thesis using ih fol frame by auto
  qed
  show ?case
  proof (cases "mtime_current stateMap x")
    case True
    have run': "sync_files ext fs password random folderId stateMap rest st
         (counts \<lparr> skipped := skipped counts + 1 \<rparr>) = (st', Inr counts')"
      using run by (simp only: sync_skip_mtime [OF True])
    have "mtime_current (folderStateMap (st_db st) folderId) x"
      using True agree by (simp add: mtime_current_def folderStateMap_def)
    then show ?thesis using key [OF run'] by simp
  next
    case False
    show ?thesis
    proof (cases "fs (sc_path x)")
      case None
      with run show ?thesis by (simp only: sync_read_error [where fs = fs, OF False None]) simp
    next
      case (Some content)
      have cov: "mtime_current (folderStateMap (st_db (persist s folderId x (hashData ext content))) folderId) x" for s
        by (simp add: mtime_current_def folderStateMap_def persist_state)
      show ?thesis
      proof (cases "hash_unchanged stateMap x (hashData ext content)")
        case True
        have run': "sync_files ext fs password random folderId stateMap rest
            (persist st folderId x (hashData ext content))
            (counts \<lparr> skipped := skipped counts + 1 \<rparr>) = (st', Inr counts')"
          using run by (simp only: sync_same_hash [where fs = fs, OF False Some True])
        show ?thesis
          using key [OF run' _ _ _ cov] by (simp add: persist_state persist_folders)
      next
        case nh: False
        obtain stp r where p: "processFile ext fs
            \<lparr> opt_password = password, opt_customName = Some (sc_relativePath x) \<rparr>
            (fst (random (sc_path x))) (snd (random (sc_path x))) (sc_path x) st = (stp, r)"
          by (cases "processFile ext fs
            \<lparr> opt_password = password, opt_customName = Some (sc_relativePath x) \<rparr>
            (fst (random (sc_path x))) (snd (random (sc_path x))) (sc_path x) st")
        have same: "sync_state (st_db stp) = sync_state (st_db st)"
          "sync_folders (st_db stp) = sync_folders (st_db st)"
          using processFile_same_sync [of st ext fs
            "\<lparr> opt_password = password, opt_customName = Some (sc_relativePath x) \<rparr>"
            "fst (random (sc_path x))" "snd (random (sc_path x))" "sc_path x"] p
          by (simp_all add: same_sync_def)
        note step = sync_upload [where fs = fs and random = random and folderId = folderId
            and rest = rest and counts = counts, OF False Some nh p]
        show ?thesis
        proof (cases r)
          case (Inr result)
          have run': "sync_files ext fs password random folderId stateMap rest
              (persist stp folderId x (hashData ext content))
              (counts \<lparr> uploaded := uploaded counts + 1 \<rparr>) = (st', Inr counts')"
            using run by (simp add: step Inr del: sync_files.simps)
          show ?thesis
            using key [OF run' _ _ _ cov] by (simp add: persist_state persist_folders same)
        next
          case (Inl err)
          show ?thesis
          proof (cases "err = DuplicateError")
            case True
            have run': "sync_files ext fs password random folderId stateMap rest
                (persist stp folderId x (hashData ext content))
                (counts \<lparr> skipped := skipped counts + 1 \<rparr>) = (st', Inr counts')"
              using run by (simp add: step Inl True del: sync_files.simps)
            show ?thesis
              using key [OF run' _ _ _ cov] by (simp add: persist_state persist_folders same)
          next
            case ne: False
            have "sync_files ext fs password random folderId stateMap rest stp counts
                = (st', Inr counts')"
              using run by (simp add: step Inl ne del: sync_files.simps)
            then have "uploaded counts' + skipped counts' \<le> uploaded counts + skipped counts + length rest"
              by (rule sync_counts_bound)
            then show ?thesis using full by simp
          qed
        qed
      qed
    qed
  qed
qed

lemma second_scan:
  assumes "syncFolder ext fs password random folderPath scanned st = (st1, Inr c1)"
    and "uploaded c1 + skipped c1 = length scanned"
    and "distinct (map sc_relativePath scanned)"
  shows "syncFolder ext fs' password' random' folderPath scanned st1
           = (st1, Inr \<lparr> uploaded = 0, skipped = length scanned \<rparr>)"
proof -
  obtain folder where f: "getSyncFolderByPath (st_db st) folderPath = Some folder"
    using assms(1) by (cases "getSyncFolderByPath (st_db st) folderPath") (auto simp: syncFolder_def)
  let ?fid = "sf_id folder"
  have run: "sync_files ext fs password random ?fid (folderStateMap (st_db st) ?fid) scanned st
               \<lparr> uploaded = 0, skipped = 0 \<rparr> = (st1, Inr c1)"
    using assms(1) f by (simp add: syncFolder_def)
  have full: "uploaded c1 + skipped c1
      = uploaded \<lparr> uploaded = 0, skipped = 0 \<rparr> + skipped \<lparr> uploaded = 0, skipped = 0 \<rparr> + length scanned"
    using assms(2) by simp
  have agree: "\<forall>x\<in>set scanned. folderStateMap (st_db st) ?fid (sc_relativePath x)
      = sync_state (st_db st) (?fid, sc_relativePath x)"
    by (simp add: folderStateMap_def)
  have cov: "list_all (mtime_current (folderStateMap (st_db st1) ?fid)) scanned"
    and fol: "sync_folders (st_db st1) = sync_folders (st_db st)"
    using sync_files_covers [OF run full assms(3) agree] by simp_all
  have f1: "getSyncFolderByPath (st_db st1) folderPath = Some folder"
    using f fol by (simp add: getSyncFolderByPath_def)
  show ?thesis
    by (simp add: syncFolder_def f1 sync_all_current [OF cov])
qed

text \<open>
  Claim C8, as the code has it. For a file of the scan: when the persisted modification
  time is at least the current one, the file is skipped, whatever the file system holds
  (nothing is read or hashed); otherwise its digest is computed, and when it is the
  persisted one the state is written with that digest and the new time, and the file is
  skipped; otherwise the file is uploaded under its relative path, and after a
  successful upload, or one that ended with DuplicateError, the digest and the time
  are written, the file counting as uploaded in the first case and as skipped in the
  second; after an upload that ended with any other error the scan goes on to the next
  file with the store as the upload left it, the file counted neither as uploaded nor as
  skipped and the sync state as it was. A second scan of the same files uploads none and
  skips all of them, provided the first scan counted every file as uploaded or skipped.
\<close>

theorem syncFolder_decisions:
  "(mtime_current stateMap entry \<longrightarrow>
      sync_files ext fs password random folderId stateMap (entry # rest) st counts
        = sync_files ext fs password random folderId stateMap rest st
            (counts \<lparr> skipped := skipped counts + 1 \<rparr>)) \<and>
   (\<not> mtime_current stateMap entry \<and> fs (sc_path entry) = Some content \<and>
    hash_unchanged stateMap entry (hashData ext content) \<longrightarrow>
      sync_files ext fs password random folderId stateMap (entry # rest) st counts
        = sync_files ext fs password random folderId stateMap rest
            (persist st folderId entry (hashData ext content))
            (counts \<lparr> skipped := skipped counts + 1 \<rparr>)) \<and>
   (\<not> mtime_current stateMap entry \<and> fs (sc_path entry) = Some content \<and>
    \<not> hash_unchanged stateMap entry (hashData ext content) \<and>
    processFile ext fs \<lparr> opt_password = password, opt_customName = Some (sc_relativePath entry) \<rparr>
      (fst (random (sc_path entry))) (snd (random (sc_path entry))) (sc_path entry) st
      = (st', Inr result) \<longrightarrow>
      sync_files ext fs password random folderId stateMap (entry # rest) st counts
        = sync_files ext fs password random folderId stateMap rest
            (persist st' folderId entry (hashData ext content))
            (counts \<lparr> uploaded := uploaded counts + 1 \<rparr>)) \<and>
   (\<not> mtime_current stateMap entry \<and> fs (sc_path entry) = Some content \<and>
    \<not> hash_unchanged stateMap entry (hashData ext content) \<and>
    processFile ext fs \<lparr> opt_password = password, opt_customName = Some (sc_relativePath entry) \<rparr>
      (fst (random (sc_path entry))) (snd (random (sc_path entry))) (sc_path entry) st
      = (st', Inl DuplicateError) \<longrightarrow>
      sync_files ext fs password random folderId stateMap (entry # rest) st counts
        = sync_files ext fs password random folderId stateMap rest
            (persist st' folderId entry (hashData ext content))
            (counts \<lparr> skipped := skipped counts + 1 \<rparr>)) \<and>
   (\<not> mtime_current stateMap entry \<and> fs (sc_path entry) = Some content \<and>
    \<not> hash_unchanged stateMap entry (hashData ext content) \<and>
    processFile ext fs \<lparr> opt_password = password, opt_customName = Some (sc_relativePath entry) \<rparr>
      (fst (random (sc_path entry))) (snd (random (sc_path entry))) (sc_path entry) st
      = (st', Inl err) \<and> err \<noteq> DuplicateError \<longrightarrow>
      sync_files ext fs password random folderId stateMap (entry # rest) st counts
        = sync_files ext fs password random folderId stateMap rest st' counts \<and>
      sync_state (st_db st') = sync_state (st_db st)) \<and>
   sync_state (st_db (persist st folderId entry h)) (folderId, sc_relativePath entry)
     = Some \<lparr> ss_file_hash = h, ss_mtime = sc_mtime entry \<rparr> \<and>
   (syncFolder ext fs password random folderPath scanned st = (st1, Inr c1) \<and>
    uploaded c1 + skipped c1 = length scanned \<and> distinct (map sc_relativePath scanned) \<longrightarrow>
      syncFolder ext fs' password' random' folderPath scanned st1
        = (st1, Inr \<lparr> uploaded = 0, skipped = length scanned \<rparr>))"
proof (intro conjI impI)
  assume "mtime_current stateMap entry"
  then show "sync_files ext fs password random folderId stateMap (entry # rest) st counts
        = sync_files ext fs password random folderId stateMap rest st
            (counts \<lparr> skipped := skipped counts + 1 \<rparr>)"
    by (rule sync_skip_mtime)
next
  assume "\<not> mtime_current stateMap entry \<and> fs (sc_path entry) = Some content \<and>
    hash_unchanged stateMap entry (hashData ext content)"
  then show "sync_files ext fs password random folderId stateMap (entry # rest) st counts
        = sync_files ext fs password random folderId stateMap rest
            (persist st folderId entry (hashData ext content))
            (counts \<lparr> skipped := skipped counts + 1 \<rparr>)"
    by (intro sync_same_hash [where fs = fs]) simp_all
next
  assume a: "\<not> mtime_current stateMap entry \<and> fs (sc_path entry) = Some content \<and>
    \<not> hash_unchanged stateMap entry (hashData ext content) \<and>
    processFile ext fs \<lparr> opt_password = password, opt_customName = Some (sc_relativePath entry) \<rparr>
      (fst (random (sc_path entry))) (snd (random (sc_path entry))) (sc_path entry) st
      = (st', Inr result)"
  show "sync_files ext fs password random folderId stateMap (entry # rest) st counts
        = sync_files ext fs password random folderId stateMap rest
            (persist st' folderId entry (hashData ext content))
            (counts \<lparr> uploaded := uploaded counts + 1 \<rparr>)"
    using sync_upload [where fs = fs and random = random and folderId = folderId
        and rest = rest and counts = counts and r = "Inr result" and st' = st' and st = st
        and ext = ext and password = password and x = entry and content = content
        and stateMap = stateMap] a
    by (simp del: sync_files.simps)
next
  assume a: "\<not> mtime_current stateMap entry \<and> fs (sc_path entry) = Some content \<and>
    \<not> hash_unchanged stateMap entry (hashData ext content) \<and>
    processFile ext fs \<lparr> opt_password = password, opt_customName = Some (sc_relativePath entry) \<rparr>
      (fst (random (sc_path entry))) (snd (random (sc_path entry))) (sc_path entry) st
      = (st', Inl DuplicateError)"
  show "sync_files ext fs password random folderId stateMap (entry # rest) st counts
        = sync_files ext fs password random folderId stateMap rest
            (persist st' folderId entry (hashData ext content))
            (counts \<lparr> skipped := skipped counts + 1 \<rparr>)"
    using sync_upload [where fs = fs and random = random and folderId = folderId
        and rest = rest and counts = counts and r = "Inl DuplicateError" and st' = st' and st = st
        and ext = ext and password = password and x = entry and content = content
        and stateMap = stateMap] a
    by (simp del: sync_files.simps)
next
  assume a: "\<not> mtime_current stateMap entry \<and> fs (sc_path entry) = Some content \<and>
    \<not> hash_unchanged stateMap entry (hashData ext content) \<and>
    processFile ext fs \<lparr> opt_password = password, opt_customName = Some (sc_relativePath entry) \<rparr>
      (fst (random (sc_path entry))) (snd (random (sc_path entry))) (sc_path entry) st
      = (st', Inl err) \<and> err \<noteq> DuplicateError"
  show "sync_files ext fs password random folderId stateMap (entry # rest) st counts
        = sync_files ext fs password random folderId stateMap rest st' counts"
    using sync_upload [where fs = fs and random = random and folderId = folderId
        and rest = rest and counts = counts and r = "Inl err" and st' = st' and st = st
        and ext = ext and password = password and x = entry and content = content
        and stateMap = stateMap] a
    by (simp del: sync_files.simps)
  show "sync_state (st_db st') = sync_state (st_db st)"
    using processFile_same_sync [of st ext fs
        "\<lparr> opt_password = password, opt_customName = Some (sc_relativePath entry) \<rparr>"
        "fst (random (sc_path entry))" "snd (random (sc_path entry))" "sc_path entry"] a
    by (simp add: same_sync_def)
next
  show "sync_state (st_db (persist st folderId entry h)) (folderId, sc_relativePath entry)
     = Some \<lparr> ss_file_hash = h, ss_mtime = sc_mtime entry \<rparr>"
    by (simp add: persist_state)
next
  assume a: "syncFolder ext fs password random folderPath scanned st = (st1, Inr c1) \<and>
    uploaded c1 + skipped c1 = length scanned \<and> distinct (map sc_relativePath scanned)"
  show "syncFolder ext fs' password' random' folderPath scanned st1
        = (st1, Inr \<lparr> uploaded = 0, skipped = length scanned \<rparr>)"
    using second_scan [OF conjunct1 [OF a] conjunct1 [OF conjunct2 [OF a]]
        conjunct2 [OF conjunct2 [OF a]]] .
qed

lemma sync_prepare:
  "files db = [] \<Longrightarrow>
   \<exists>fd cfs. prepare example_externals sync_fs \<lparr> opt_password = ''pw'', opt_customName = Some ''a.txt'' \<rparr>
        (replicate 32 0) (replicate 12 0) ''/docs/a.txt'' db = Inr (fd, cfs) \<and> length cfs = 1"
  by (simp add: prepare_def example_externals_def exists_def hashData_def
      compress_def shouldSkip_def SKIP_COMPRESSION_def encrypt_def deriveKey_def
      pbkdf2Sync_def hmac_key_def SHA512_BLOCK_def strip_zeros utf8_bytes_def
      split_chunks_def TELEGRAM_CHUNK_SIZE_def length_utf8_bytes createHeader_layout Let_def
      sync_fs_def)

lemma processFile_init_fail:
  assumes "prepare ext fs opts salt iv filePath (st_db st) = Inr (fd, cfs)"
    and "tg_outcomes (st_client st) = False # outs"
  shows "processFile ext fs opts salt iv filePath st
           = (st \<lparr> st_client := (st_client st) \<lparr> tg_outcomes := outs \<rparr> \<rparr>, Inl TransportError)"
  using assms by (simp add: processFile_def on_client_def initialize_def api_call_def)

lemma sync_store_folder:
  "getSyncFolderByPath (st_db (sync_store outs)) ''/docs''
     = Some \<lparr> sf_id = 1, sf_local_path = ''/docs'', sf_enabled = True \<rparr>"
  by (simp add: getSyncFolderByPath_def sync_store_def empty_database_def)

lemma sync_store_no_state:
  "\<not> mtime_current (folderStateMap (st_db (sync_store outs)) 1) x"
  "\<not> hash_unchanged (folderStateMap (st_db (sync_store outs)) 1) x h"
  by (simp_all add: mtime_current_def hash_unchanged_def folderStateMap_def sync_store_def
      empty_database_def)

lemma first_scan_offline:
  "syncFolder example_externals sync_fs ''pw'' sync_random ''/docs'' sync_scan (sync_store [False])
     = (sync_store [], Inr \<lparr> uploaded = 0, skipped = 0 \<rparr>)"
proof -
  let ?x = "\<lparr> sc_path = ''/docs/a.txt'', sc_relativePath = ''a.txt'', sc_mtime = 1000, sc_size = 2 \<rparr>"
  let ?st = "sync_store [False]"
  obtain fd cfs where p: "prepare example_externals sync_fs
      \<lparr> opt_password = ''pw'', opt_customName = Some ''a.txt'' \<rparr>
      (replicate 32 0) (replicate 12 0) ''/docs/a.txt'' (st_db ?st) = Inr (fd, cfs)"
    using sync_prepare [of "st_db ?st"] by (auto simp: sync_store_def empty_database_def)
  have o: "tg_outcomes (st_client ?st) = False # []" by (simp add: sync_store_def chat_def)
  have pf: "processFile example_externals sync_fs
      \<lparr> opt_password = ''pw'', opt_customName = Some (sc_relativePath ?x) \<rparr>
      (fst (sync_random (sc_path ?x))) (snd (sync_random (sc_path ?x))) (sc_path ?x) ?st
      = (sync_store [], Inl TransportError)"
    using processFile_init_fail [OF p o] by (simp add: sync_random_def sync_store_def chat_def)
  have c: "sync_fs (sc_path ?x) = Some (utf8_bytes ''hi'')" by (simp add: sync_fs_def)
  have "sync_files example_externals sync_fs ''pw'' sync_random 1
          (folderStateMap (st_db ?st) 1) [?x] ?st \<lparr> uploaded = 0, skipped = 0 \<rparr>
        = (sync_store [], Inr \<lparr> uploaded = 0, skipped = 0 \<rparr>)"
    using sync_upload [where fs = sync_fs and random = sync_random and folderId = 1
        and rest = "[]" and counts = "\<lparr> uploaded = 0, skipped = 0 \<rparr>",
        OF sync_store_no_state(1) c sync_store_no_state(2) pf]
    by (simp del: sync_files.simps(2))
  then show ?thesis
    by (simp add: syncFolder_def sync_store_folder sync_scan_def del: sync_files.simps)
qed

lemma scan_online:
  "\<exists>st'. syncFolder example_externals sync_fs ''pw'' sync_random ''/docs'' sync_scan (sync_store [])
           = (st', Inr \<lparr> uploaded = 1, skipped = 0 \<rparr>)"
proof -
  let ?x = "\<lparr> sc_path = ''/docs/a.txt'', sc_relativePath = ''a.txt'', sc_mtime = 1000, sc_size = 2 \<rparr>"
  let ?st = "sync_store []"
  obtain fd cfs where p: "prepare example_externals sync_fs
      \<lparr> opt_password = ''pw'', opt_customName = Some ''a.txt'' \<rparr>
      (replicate 32 0) (replicate 12 0) ''/docs/a.txt'' (st_db ?st) = Inr (fd, cfs)"
    and n: "length cfs = 1"
    using sync_prepare [of "st_db ?st"] by (auto simp: sync_store_def empty_database_def)
  have ok: "db_ok (st_db ?st)" by (simp add: db_ok_def sync_store_def empty_database_def)
  have calls: "calls_ok (Suc 1) (tg_outcomes (st_client ?st))" by (simp add: sync_store_def chat_def)
  have k: "1 \<le> length cfs" using n by simp
  have nf: "1 < length cfs \<longrightarrow> Suc 1 < length (tg_outcomes (st_client ?st)) \<and>
      \<not> tg_outcomes (st_client ?st) ! Suc 1"
    using n by simp
  obtain stp where pf0: "processFile example_externals sync_fs
      \<lparr> opt_password = ''pw'', opt_customName = Some ''a.txt'' \<rparr>
      (replicate 32 0) (replicate 12 0) ''/docs/a.txt'' ?st = (stp, Inr fd)"
    using processFile_progress [OF p ok calls k nf] n by auto
  have pf: "processFile example_externals sync_fs
      \<lparr> opt_password = ''pw'', opt_customName = Some (sc_relativePath ?x) \<rparr>
      (fst (sync_random (sc_path ?x))) (snd (sync_random (sc_path ?x))) (sc_path ?x) ?st
      = (stp, Inr fd)"
    using pf0 by (simp add: sync_random_def)
  have c: "sync_fs (sc_path ?x) = Some (utf8_bytes ''hi'')" by (simp add: sync_fs_def)
  have "sync_files example_externals sync_fs ''pw'' sync_random 1
          (folderStateMap (st_db ?st) 1) [?x] ?st \<lparr> uploaded = 0, skipped = 0 \<rparr>
        = (persist stp 1 ?x (hashData example_externals (utf8_bytes ''hi'')),
           Inr \<lparr> uploaded = 1, skipped = 0 \<rparr>)"
    using sync_upload [where fs = sync_fs and random = sync_random and folderId = 1
        and rest = "[]" and counts = "\<lparr> uploaded = 0, skipped = 0 \<rparr>",
        OF sync_store_no_state(1) c sync_store_no_state(2) pf]
    by (simp del: sync_files.simps(2))
  then show ?thesis
    by (simp add: syncFolder_def sync_store_folder sync_scan_def del: sync_files.simps)
qed

lemma prepare_hash:
  assumes "prepare ext fs opts salt iv filePath db = Inr (fd, cfs)" and "fs filePath = Some fileData"
  shows "fd_hash fd = hashData ext fileData"
  using assms by (auto simp: prepare_def Let_def andThen_def split: if_splits prod.splits sum.splits)

lemma offline_upload:
  "processFile example_externals sync_fs \<lparr> opt_password = ''pw'', opt_customName = Some ''a.txt'' \<rparr>
      (replicate 32 0) (replicate 12 0) ''/docs/a.txt'' (sync_store [False])
     = (sync_store [], Inl TransportError)"
proof -
  let ?st = "sync_store [False]"
  obtain fd cfs where p: "prepare example_externals sync_fs
      \<lparr> opt_password = ''pw'', opt_customName = Some ''a.txt'' \<rparr>
      (replicate 32 0) (replicate 12 0) ''/docs/a.txt'' (st_db ?st) = Inr (fd, cfs)"
    using sync_prepare [of "st_db ?st"] by (auto simp: sync_store_def empty_database_def)
  have o: "tg_outcomes (st_client ?st) = False # []" by (simp add: sync_store_def chat_def)
  show ?thesis
    using processFile_init_fail [OF p o] by (simp add: sync_store_def chat_def)
qed

lemma broken_upload:
  "\<exists>st'. processFile example_externals sync_fs \<lparr> opt_password = ''pw'', opt_customName = Some ''a.txt'' \<rparr>
      (replicate 32 0) (replicate 12 0) ''/docs/a.txt'' (sync_store [True, False])
     = (st', Inl TransportError) \<and>
     exists (st_db st') ''hi'' \<and>
     sync_state (st_db st') = Map.empty \<and>
     sync_folders (st_db st') = [\<lparr> sf_id = 1, sf_local_path = ''/docs'', sf_enabled = True \<rparr>]"
proof -
  let ?st = "sync_store [True, False]"
  let ?o = "\<lparr> opt_password = ''pw'', opt_customName = Some ''a.txt'' \<rparr>"
  obtain fd cfs where p: "prepare example_externals sync_fs ?o
      (replicate 32 0) (replicate 12 0) ''/docs/a.txt'' (st_db ?st) = Inr (fd, cfs)"
    and n: "length cfs = 1"
    using sync_prepare [of "st_db ?st"] by (auto simp: sync_store_def empty_database_def)
  have h: "fd_hash fd = ''hi''"
    using prepare_hash [OF p, of "utf8_bytes ''hi''"]
    by (simp add: sync_fs_def hashData_def example_externals_def utf8_string_bytes)
  have ok: "db_ok (st_db ?st)" by (simp add: db_ok_def sync_store_def empty_database_def)
  have calls: "calls_ok (Suc 0) (tg_outcomes (st_client ?st))" by (simp add: sync_store_def chat_def)
  have k: "0 \<le> length cfs" by simp
  have fail: "0 < length cfs \<longrightarrow> Suc 0 < length (tg_outcomes (st_client ?st)) \<and>
      \<not> tg_outcomes (st_client ?st) ! Suc 0"
    by (simp add: sync_store_def chat_def)
  obtain st' where pf: "processFile example_externals sync_fs ?o
      (replicate 32 0) (replicate 12 0) ''/docs/a.txt'' ?st = (st', Inl TransportError)"
    and f: "files (st_db st') = files (st_db ?st) @ [file_row_of (Suc (files_seq (st_db ?st))) fd]"
    and m: "map c_chunk_index (rows_of (st_db st') (Suc (files_seq (st_db ?st)))) = [0..<0]"
    using processFile_progress [OF p ok calls k fail] n by auto
  have ss: "same_sync (st_db ?st) (st_db st')"
    using processFile_same_sync [of ?st example_externals sync_fs ?o "replicate 32 0" "replicate 12 0"
        "''/docs/a.txt''"] pf by simp
  have e: "exists (st_db st') ''hi''"
    using f h by (simp add: exists_def file_row_of_def)
  show ?thesis
    using pf e ss by (auto simp: same_sync_def sync_store_def empty_database_def)
qed

text \<open>
  Claim C8 as stated fails in its last part: when the first scan could not connect, the
  second scan over the same folder uploads the file.
\<close>

theorem second_scan_uploads_counterexample:
  "snd (syncFolder example_externals sync_fs ''pw'' sync_random ''/docs'' sync_scan
          (sync_store [False])) = Inr \<lparr> uploaded = 0, skipped = 0 \<rparr> \<and>
   snd (syncFolder example_externals sync_fs ''pw'' sync_random ''/docs'' sync_scan
          (fst (syncFolder example_externals sync_fs ''pw'' sync_random ''/docs'' sync_scan
                  (sync_store [False]))))
     = Inr \<lparr> uploaded = 1, skipped = 0 \<rparr>"
proof -
  obtain st' where "syncFolder example_externals sync_fs ''pw'' sync_random ''/docs'' sync_scan
       (sync_store []) = (st', Inr \<lparr> uploaded = 1, skipped = 0 \<rparr>)"
    using scan_online by blast
  then show ?thesis by (simp add: first_scan_offline)
qed

theorem syncFolder_decisions_witness:
  "snd (syncFolder example_externals sync_fs ''pw'' sync_random ''/docs'' sync_scan (sync_store []))
     = Inr \<lparr> uploaded = 1, skipped = 0 \<rparr> \<and>
   syncFolder example_externals sync_fs ''pw'' sync_random ''/docs'' sync_scan
     (fst (syncFolder example_externals sync_fs ''pw'' sync_random ''/docs'' sync_scan (sync_store [])))
     = (fst (syncFolder example_externals sync_fs ''pw'' sync_random ''/docs'' sync_scan (sync_store [])),
        Inr \<lparr> uploaded = 0, skipped = 1 \<rparr>) \<and>
   sync_files example_externals Map.empty ''pw'' sync_random 1
       [''a.txt'' \<mapsto> \<lparr> ss_file_hash = ''hi'', ss_mtime = 2000 \<rparr>] sync_scan (sync_store [])
       \<lparr> uploaded = 0, skipped = 0 \<rparr>
     = (sync_store [], Inr \<lparr> uploaded = 0, skipped = 1 \<rparr>) \<and>
   sync_files example_externals sync_fs ''pw'' sync_random 1
       [''a.txt'' \<mapsto> \<lparr> ss_file_hash = ''hi'', ss_mtime = 500 \<rparr>] sync_scan (sync_store [])
       \<lparr> uploaded = 0, skipped = 0 \<rparr>
     = (persist (sync_store []) 1
          \<lparr> sc_path = ''/docs/a.txt'', sc_relativePath = ''a.txt'', sc_mtime = 1000, sc_size = 2 \<rparr> ''hi'',
        Inr \<lparr> uploaded = 0, skipped = 1 \<rparr>) \<and>
   sync_files example_externals sync_fs ''pw'' sync_random 1 Map.empty sync_scan
       \<lparr> st_db = empty_database \<lparr> files := [example_row] \<rparr>, st_client = chat [] \<rparr>
       \<lparr> uploaded = 0, skipped = 0 \<rparr>
     = (persist \<lparr> st_db = empty_database \<lparr> files := [example_row] \<rparr>, st_client = chat [] \<rparr> 1
          \<lparr> sc_path = ''/docs/a.txt'', sc_relativePath = ''a.txt'', sc_mtime = 1000, sc_size = 2 \<rparr> ''hi'',
        Inr \<lparr> uploaded = 0, skipped = 1 \<rparr>) \<and>
   sync_state (st_db (persist (sync_store []) 1
          \<lparr> sc_path = ''/docs/a.txt'', sc_relativePath = ''a.txt'', sc_mtime = 1000, sc_size = 2 \<rparr> ''hi''))
       (1, ''a.txt'') = Some \<lparr> ss_file_hash = ''hi'', ss_mtime = 1000 \<rparr> \<and>
   sync_files example_externals sync_fs ''pw'' sync_random 1 Map.empty sync_scan (sync_store [False])
       \<lparr> uploaded = 0, skipped = 0 \<rparr>
     = (sync_store [], Inr \<lparr> uploaded = 0, skipped = 0 \<rparr>) \<and>
   snd (syncFolder example_externals sync_fs ''pw'' sync_random ''/docs'' sync_scan
          (sync_store [True, False])) = Inr \<lparr> uploaded = 0, skipped = 0 \<rparr> \<and>
   snd (syncFolder example_externals sync_fs ''pw'' sync_random ''/docs'' sync_scan
          (fst (syncFolder example_externals sync_fs ''pw'' sync_random ''/docs'' sync_scan
                  (sync_store [True, False]))))
     = Inr \<lparr> uploaded = 0, skipped = 1 \<rparr>"
proof -
  let ?x = "\<lparr> sc_path = ''/docs/a.txt'', sc_relativePath = ''a.txt'', sc_mtime = 1000, sc_size = 2 \<rparr>"
  let ?c0 = "\<lparr> uploaded = 0, skipped = 0 \<rparr>"
  let ?c1 = "\<lparr> uploaded = 1, skipped = 0 \<rparr>"
  let ?M = "[''a.txt'' \<mapsto> \<lparr> ss_file_hash = ''hi'', ss_mtime = 2000 \<rparr>]"
  obtain st' where r: "syncFolder example_externals sync_fs ''pw'' sync_random ''/docs'' sync_scan
       (sync_store []) = (st', Inr ?c1)"
    using scan_online by blast
  have full: "uploaded ?c1 + skipped ?c1 = length sync_scan" by (simp add: sync_scan_def)
  have d: "distinct (map sc_relativePath sync_scan)" by (simp add: sync_scan_def)
  have m: "mtime_current ?M ?x" by (simp add: mtime_current_def)
  note th = syncFolder_decisions [where ext = example_externals and fs = sync_fs and password = "''pw''"
      and random = sync_random and folderPath = "''/docs''" and scanned = sync_scan
      and st = "sync_store []" and ?st1.0 = st' and ?c1.0 = ?c1
      and fs' = sync_fs and password' = "''pw''" and random' = sync_random
      and stateMap = ?M and entry = ?x and rest = "[]" and counts = ?c0 and folderId = 1]
  have second: "syncFolder example_externals sync_fs ''pw'' sync_random ''/docs'' sync_scan st'
     = (st', Inr \<lparr> uploaded = 0, skipped = 1 \<rparr>)"
    using th r full d by (simp add: sync_scan_def del: sync_files.simps)
  have indep: "sync_files example_externals Map.empty ''pw'' sync_random 1 ?M sync_scan (sync_store []) ?c0
     = (sync_store [], Inr \<lparr> uploaded = 0, skipped = 1 \<rparr>)"
    using syncFolder_decisions [where ext = example_externals and fs = Map.empty and password = "''pw''"
      and random = sync_random and stateMap = ?M and entry = ?x and rest = "[]" and counts = ?c0
      and folderId = 1 and st = "sync_store []"] m
    by (simp add: sync_scan_def del: sync_files.simps(2))
  let ?N = "[''a.txt'' \<mapsto> \<lparr> ss_file_hash = ''hi'', ss_mtime = 500 \<rparr>]"
  let ?dup = "\<lparr> st_db = empty_database \<lparr> files := [example_row] \<rparr>, st_client = chat [] \<rparr>"
  have h: "hashData example_externals (utf8_bytes ''hi'') = ''hi''"
    by (simp add: hashData_def example_externals_def utf8_string_bytes)
  have cont: "sync_fs (sc_path ?x) = Some (utf8_bytes ''hi'')" by (simp add: sync_fs_def)
  have n1: "\<not> mtime_current ?N ?x" by (simp add: mtime_current_def)
  have u1: "hash_unchanged ?N ?x (hashData example_externals (utf8_bytes ''hi''))"
    by (simp add: hash_unchanged_def h)
  have n2: "\<not> mtime_current Map.empty ?x" by (simp add: mtime_current_def)
  have u2: "\<not> hash_unchanged Map.empty ?x (hashData example_externals (utf8_bytes ''hi''))"
    by (simp add: hash_unchanged_def)
  have e: "exists (st_db ?dup) (hashData example_externals (utf8_bytes ''hi''))"
    by (simp add: exists_def h example_row_def)
  have pf: "processFile example_externals sync_fs
      \<lparr> opt_password = ''pw'', opt_customName = Some (sc_relativePath ?x) \<rparr>
      (fst (sync_random (sc_path ?x))) (snd (sync_random (sc_path ?x))) (sc_path ?x) ?dup
      = (?dup, Inl DuplicateError)"
    using prepare_duplicate [where fs = sync_fs and filePath = "sc_path ?x", OF cont e]
    by (simp add: processFile_def)
  have same: "sync_files example_externals sync_fs ''pw'' sync_random 1 ?N (?x # []) (sync_store []) ?c0
     = (persist (sync_store []) 1 ?x ''hi'', Inr \<lparr> uploaded = 0, skipped = 1 \<rparr>)"
    using syncFolder_decisions [where ext = example_externals and fs = sync_fs and password = "''pw''"
      and random = sync_random and stateMap = ?N and entry = ?x and rest = "[]" and counts = ?c0
      and folderId = 1 and st = "sync_store []" and content = "utf8_bytes ''hi''"] n1 cont u1
    by (simp add: h del: sync_files.simps(2))
  have dup: "sync_files example_externals sync_fs ''pw'' sync_random 1 Map.empty (?x # []) ?dup ?c0
     = (persist ?dup 1 ?x ''hi'', Inr \<lparr> uploaded = 0, skipped = 1 \<rparr>)"
    using syncFolder_decisions [where ext = example_externals and fs = sync_fs and password = "''pw''"
      and random = sync_random and stateMap = Map.empty and entry = ?x and rest = "[]" and counts = ?c0
      and folderId = 1 and st = ?dup and st' = ?dup and content = "utf8_bytes ''hi''"] n2 cont u2 pf
    by (simp add: h del: sync_files.simps(2))
  have written: "sync_state (st_db (persist (sync_store []) 1 ?x ''hi'')) (1, ''a.txt'')
      = Some \<lparr> ss_file_hash = ''hi'', ss_mtime = 1000 \<rparr>"
    using syncFolder_decisions [where st = "sync_store []" and folderId = 1 and entry = ?x and h = "''hi''"]
    by simp
  let ?o = "\<lparr> opt_password = ''pw'', opt_customName = Some ''a.txt'' \<rparr>"
  have off: "processFile example_externals sync_fs
      \<lparr> opt_password = ''pw'', opt_customName = Some (sc_relativePath ?x) \<rparr>
      (fst (sync_random (sc_path ?x))) (snd (sync_random (sc_path ?x))) (sc_path ?x) (sync_store [False])
      = (sync_store [], Inl TransportError)"
    using offline_upload by (simp add: sync_random_def)
  have offline: "sync_files example_externals sync_fs ''pw'' sync_random 1 Map.empty (?x # [])
       (sync_store [False]) ?c0 = (sync_store [], Inr ?c0)"
    using syncFolder_decisions [where ext = example_externals and fs = sync_fs and password = "''pw''"
      and random = sync_random and stateMap = Map.empty and entry = ?x and rest = "[]" and counts = ?c0
      and folderId = 1 and st = "sync_store [False]" and st' = "sync_store []"
      and content = "utf8_bytes ''hi''" and err = TransportError] n2 cont u2 off
    by (simp del: sync_files.simps(2))
  obtain stF where pfB: "processFile example_externals sync_fs ?o
      (replicate 32 0) (replicate 12 0) ''/docs/a.txt'' (sync_store [True, False])
     = (stF, Inl TransportError)"
    and eF: "exists (st_db stF) ''hi''" and ss: "sync_state (st_db stF) = Map.empty"
    and sf: "sync_folders (st_db stF) = [\<lparr> sf_id = 1, sf_local_path = ''/docs'', sf_enabled = True \<rparr>]"
    using broken_upload by blast
  have pf1: "processFile example_externals sync_fs
      \<lparr> opt_password = ''pw'', opt_customName = Some (sc_relativePath ?x) \<rparr>
      (fst (sync_random (sc_path ?x))) (snd (sync_random (sc_path ?x))) (sc_path ?x)
      (sync_store [True, False]) = (stF, Inl TransportError)"
    using pfB by (simp add: sync_random_def)
  have m0: "folderStateMap (st_db (sync_store [True, False])) n = Map.empty" for n
    by (simp add: folderStateMap_def sync_store_def empty_database_def)
  have broken: "sync_files example_externals sync_fs ''pw'' sync_random 1 Map.empty (?x # [])
       (sync_store [True, False]) ?c0 = (stF, Inr ?c0)"
    using syncFolder_decisions [where ext = example_externals and fs = sync_fs and password = "''pw''"
      and random = sync_random and stateMap = Map.empty and entry = ?x and rest = "[]" and counts = ?c0
      and folderId = 1 and st = "sync_store [True, False]" and st' = stF
      and content = "utf8_bytes ''hi''" and err = TransportError] n2 cont u2 pf1
    by (simp del: sync_files.simps(2))
  have scan1: "syncFolder example_externals sync_fs ''pw'' sync_random ''/docs'' sync_scan
       (sync_store [True, False]) = (stF, Inr ?c0)"
    using broken by (simp add: syncFolder_def sync_store_folder sync_scan_def m0 del: sync_files.simps)
  have dupl: "processFile example_externals sync_fs
      \<lparr> opt_password = ''pw'', opt_customName = Some (sc_relativePath ?x) \<rparr>
      (fst (sync_random (sc_path ?x))) (snd (sync_random (sc_path ?x))) (sc_path ?x) stF
      = (stF, Inl DuplicateError)"
    using prepare_duplicate [where fs = sync_fs and filePath = "sc_path ?x" and db = "st_db stF"
        and ext = example_externals, OF cont] eF
    by (simp add: processFile_def h)
  have again: "sync_files example_externals sync_fs ''pw'' sync_random 1 Map.empty (?x # []) stF ?c0
     = (persist stF 1 ?x ''hi'', Inr \<lparr> uploaded = 0, skipped = 1 \<rparr>)"
    using syncFolder_decisions [where ext = example_externals and fs = sync_fs and password = "''pw''"
      and random = sync_random and stateMap = Map.empty and entry = ?x and rest = "[]" and counts = ?c0
      and folderId = 1 and st = stF and st' = stF and content = "utf8_bytes ''hi''"] n2 cont u2 dupl
    by (simp add: h del: sync_files.simps(2))
  have mF: "folderStateMap (st_db stF) n = Map.empty" for n
    by (simp add: folderStateMap_def ss)
  have scan2: "syncFolder example_externals sync_fs ''pw'' sync_random ''/docs'' sync_scan stF
     = (persist stF 1 ?x ''hi'', Inr \<lparr> uploaded = 0, skipped = 1 \<rparr>)"
    using again by (simp add: syncFolder_def getSyncFolderByPath_def sf sync_scan_def mF del: sync_files.simps)
  show ?thesis
    using r second indep same dup written offline scan1 scan2
    by (simp add: sync_scan_def del: sync_files.simps)
qed

end
